theory Spec2Isabelle
  imports Complex_Main "HOL-Library.AList"
begin

section \<open>Errors as values\<close>

text \<open>
  Every exception that \<^verbatim>\<open>model.py\<close> or the library calls it makes can raise is a value.
  \<open>CannotUseEM\<close> is the \<^verbatim>\<open>Exception('Cannot use EM if only one target is estimated...')\<close>
  of \<^verbatim>\<open>Separator.forward\<close>; the others are Python's and torch's own.
\<close>

datatype error =
    ValueError | RuntimeError | IndexError | KeyError | StopIteration
  | AttributeError | AssertionError | CannotUseEM

fun ebind :: "error + 'a \<Rightarrow> ('a \<Rightarrow> error + 'b) \<Rightarrow> error + 'b" where
  "ebind (Inl e) f = Inl e"
| "ebind (Inr x) f = f x"

section \<open>Tensors\<close>

text \<open>
  A tensor is its shape and its entries, read by multi-index. \<open>mk\<close> builds every
  tensor of the model: outside the shape the entry is 0, so two tensors with the same
  shape and the same entries are equal.
\<close>

record tensor =
  shape :: "nat list"
  elem :: "nat list \<Rightarrow> real"

fun in_range :: "nat list \<Rightarrow> nat list \<Rightarrow> bool" where
  "in_range [] [] = True"
| "in_range (n # ns) (i # is) = (i < n \<and> in_range ns is)"
| "in_range _ _ = False"

definition mk :: "nat list \<Rightarrow> (nat list \<Rightarrow> real) \<Rightarrow> tensor" where
  "mk s f = \<lparr>shape = s, elem = (\<lambda>i. if in_range s i then f i else 0)\<rparr>"

definition numel :: "tensor \<Rightarrow> nat" where
  "numel t = prod_list (shape t)"

definition zeros :: "nat list \<Rightarrow> tensor" where
  "zeros s = mk s (\<lambda>i. 0)"

definition ones :: "nat list \<Rightarrow> tensor" where
  "ones s = mk s (\<lambda>i. 1)"

definition from_list :: "real list \<Rightarrow> tensor" where
  "from_list xs = mk [length xs] (\<lambda>i. xs ! hd i)"

definition map_t :: "(real \<Rightarrow> real) \<Rightarrow> tensor \<Rightarrow> tensor" where
  "map_t f t = mk (shape t) (\<lambda>i. f (elem t i))"

definition relu :: "tensor \<Rightarrow> tensor" where
  "relu t = map_t (\<lambda>v. max 0 v) t"

subsection \<open>Broadcasting\<close>

text \<open>
  torch aligns two shapes at their last axis; a source axis fits a destination axis
  when the sizes agree or the source's is 1. \<open>expand\<close> is what an assignment or an
  in-place operation does to its right-hand side; \<open>bshape\<close> is the shape of an
  out-of-place elementwise operation.
\<close>

fun expandable_rev :: "nat list \<Rightarrow> nat list \<Rightarrow> bool" where
  "expandable_rev [] d = True"
| "expandable_rev (a # as) [] = False"
| "expandable_rev (a # as) (b # bs) = ((a = b \<or> a = 1) \<and> expandable_rev as bs)"

definition expandable :: "nat list \<Rightarrow> nat list \<Rightarrow> bool" where
  "expandable s d = expandable_rev (rev s) (rev d)"

definition bidx :: "nat list \<Rightarrow> nat list \<Rightarrow> nat list" where
  "bidx s i = map2 (\<lambda>n k. if n = 1 then 0 else k) s (drop (length i - length s) i)"

definition expand :: "nat list \<Rightarrow> tensor \<Rightarrow> error + tensor" where
  "expand d t =
     (if expandable (shape t) d then Inr (mk d (\<lambda>i. elem t (bidx (shape t) i)))
      else Inl RuntimeError)"

fun bshape_rev :: "nat list \<Rightarrow> nat list \<Rightarrow> nat list option" where
  "bshape_rev [] d = Some d"
| "bshape_rev (a # as) [] = Some (a # as)"
| "bshape_rev (a # as) (b # bs) =
     (if a = b \<or> b = 1 \<or> a = 1
      then map_option (\<lambda>r. (if a = 1 then b else a) # r) (bshape_rev as bs)
      else None)"

definition bshape :: "nat list \<Rightarrow> nat list \<Rightarrow> nat list option" where
  "bshape s d = map_option rev (bshape_rev (rev s) (rev d))"

definition mul :: "tensor \<Rightarrow> tensor \<Rightarrow> error + tensor" where
  "mul a b =
     (case bshape (shape a) (shape b) of
        None \<Rightarrow> Inl RuntimeError
      | Some s \<Rightarrow> Inr (mk s (\<lambda>i. elem a (bidx (shape a) i) * elem b (bidx (shape b) i))))"

text \<open>\<^verbatim>\<open>x op= other\<close> on a tensor no caller holds: the result keeps the shape of \<open>x\<close>.\<close>

definition inplace_val :: "(real \<Rightarrow> real \<Rightarrow> real) \<Rightarrow> tensor \<Rightarrow> tensor \<Rightarrow> error + tensor" where
  "inplace_val f x other =
     ebind (expand (shape x) other) (\<lambda>ot. Inr (mk (shape x) (\<lambda>i. f (elem x i) (elem ot i))))"

subsection \<open>Reshaping and permuting\<close>

fun ravel :: "nat list \<Rightarrow> nat list \<Rightarrow> nat" where
  "ravel (n # ns) (i # is) = i * prod_list ns + ravel ns is"
| "ravel _ _ = 0"

fun unravel :: "nat list \<Rightarrow> nat \<Rightarrow> nat list" where
  "unravel [] k = []"
| "unravel (n # ns) k = (k div prod_list ns) # unravel ns (k mod prod_list ns)"

definition reshape :: "nat list \<Rightarrow> tensor \<Rightarrow> error + tensor" where
  "reshape s t =
     (if prod_list s = numel t
      then Inr (mk s (\<lambda>i. elem t (unravel (shape t) (ravel s i))))
      else Inl RuntimeError)"

text \<open>
  \<^verbatim>\<open>reshape\<close>/\<^verbatim>\<open>view\<close> with one \<^verbatim>\<open>-1\<close>, standing between the sizes \<open>pre\<close> and \<open>post\<close>:
  torch infers it when the known sizes have a non-zero product that divides the number
  of elements, and raises otherwise.
\<close>

definition reshape_infer :: "nat list \<Rightarrow> nat list \<Rightarrow> tensor \<Rightarrow> error + tensor" where
  "reshape_infer pre post t =
     (let known = prod_list pre * prod_list post in
      if known = 0 \<or> numel t mod known \<noteq> 0 then Inl RuntimeError
      else reshape (pre @ [numel t div known] @ post) t)"

definition index_of :: "nat list \<Rightarrow> nat \<Rightarrow> nat" where
  "index_of ds d = length (takeWhile (\<lambda>x. x \<noteq> d) ds)"

definition permute :: "nat list \<Rightarrow> tensor \<Rightarrow> error + tensor" where
  "permute dims t =
     (if length dims = length (shape t) \<and> set dims = {0..<length (shape t)}
      then Inr (mk (map (\<lambda>d. shape t ! d) dims)
                   (\<lambda>i. elem t (map (\<lambda>d. i ! index_of dims d) [0..<length dims])))
      else Inl RuntimeError)"

definition transpose' :: "nat \<Rightarrow> nat \<Rightarrow> tensor \<Rightarrow> error + tensor" where
  "transpose' a b t =
     (if a < length (shape t) \<and> b < length (shape t)
      then permute (([0..<length (shape t)])[a := b, b := a]) t
      else Inl IndexError)"

definition sum_last :: "tensor \<Rightarrow> error + tensor" where
  "sum_last t =
     (if shape t = [] then Inl IndexError
      else Inr (mk (butlast (shape t)) (\<lambda>i. \<Sum>k < last (shape t). elem t (i @ [k]))))"

definition mean_dim1_keep :: "tensor \<Rightarrow> error + tensor" where
  "mean_dim1_keep t =
     (if length (shape t) < 2 then Inl IndexError
      else Inr (mk ((shape t)[1 := 1])
                   (\<lambda>i. (\<Sum>c < shape t ! 1. elem t (i[1 := c])) / real (shape t ! 1))))"

definition cat_last :: "tensor \<Rightarrow> tensor \<Rightarrow> error + tensor" where
  "cat_last a b =
     (if shape a \<noteq> [] \<and> shape b \<noteq> [] \<and> butlast (shape a) = butlast (shape b)
      then Inr (mk (butlast (shape a) @ [last (shape a) + last (shape b)])
                   (\<lambda>i. if last i < last (shape a) then elem a i
                        else elem b (butlast i @ [last i - last (shape a)])))
      else Inl RuntimeError)"

section \<open>The store: whose tensor an in-place operation writes\<close>

text \<open>
  A Python variable holds a reference. \<open>heap\<close> maps addresses to the tensors stored
  there; a \<open>view\<close> is a reference to a stored tensor, seen with the shape \<open>vshape\<close>.
  The only views this program takes of a tensor it later writes are leading slices of
  the last axis (\<^verbatim>\<open>x[..., :n]\<close>), which address the same entries by the same
  multi-index. \<open>inplace\<close> is \<^verbatim>\<open>x += other\<close> and \<^verbatim>\<open>x *= other\<close>: it writes through the
  view into the stored tensor, so every other reference to that address sees the change.
\<close>

record heap =
  cell :: "nat \<Rightarrow> tensor"
  next_free :: nat

record view =
  base :: nat
  vshape :: "nat list"

definition alloc :: "heap \<Rightarrow> tensor \<Rightarrow> view \<times> heap" where
  "alloc h t =
     (\<lparr>base = next_free h, vshape = shape t\<rparr>,
      h\<lparr>cell := (cell h)(next_free h := t), next_free := Suc (next_free h)\<rparr>)"

definition deref :: "heap \<Rightarrow> view \<Rightarrow> tensor" where
  "deref h v = mk (vshape v) (elem (cell h (base v)))"

definition narrow_last :: "nat \<Rightarrow> view \<Rightarrow> view" where
  "narrow_last n v = v\<lparr>vshape := butlast (vshape v) @ [min n (last (vshape v))]\<rparr>"

definition inplace :: "(real \<Rightarrow> real \<Rightarrow> real) \<Rightarrow> heap \<Rightarrow> view \<Rightarrow> tensor \<Rightarrow> error + heap" where
  "inplace f h v other =
     ebind (expand (vshape v) other) (\<lambda>ot.
       Inr (h\<lparr>cell := (cell h)(base v :=
              mk (shape (cell h (base v)))
                 (\<lambda>i. if in_range (vshape v) i then f (elem (cell h (base v)) i) (elem ot i)
                      else elem (cell h (base v)) i))\<rparr>))"

section \<open>Library routines\<close>

text \<open>
  \<^verbatim>\<open>torch.stft\<close>, \<^verbatim>\<open>torchaudio.functional.istft\<close> and the layers of \<^verbatim>\<open>torch.nn\<close> are
  library code. The model gives each its documented shape and its shape errors, and
  leaves the numbers it computes uninterpreted: \<open>externals\<close> holds the numeric kernels
  of the two transforms, and each layer record carries the function of its weights.
  \<^verbatim>\<open>filtering.wiener\<close> is imported by \<^verbatim>\<open>model.py\<close> and defined elsewhere: it is the field
  \<open>wiener\<close>, taking the arguments of the call in \<^verbatim>\<open>Separator.forward\<close>
  (magnitudes, mixture, iterations, \<^verbatim>\<open>use_softmask\<close>, \<^verbatim>\<open>residual\<close>).
  Layers are modelled in evaluation mode, as \<^verbatim>\<open>load_models\<close> delivers an estimator:
  there a layer is a function of its input.
\<close>

record externals =
  stft_val :: "nat \<Rightarrow> nat \<Rightarrow> tensor \<Rightarrow> bool \<Rightarrow> tensor \<Rightarrow> nat list \<Rightarrow> real"
  istft_val :: "nat \<Rightarrow> nat \<Rightarrow> tensor \<Rightarrow> bool \<Rightarrow> nat \<Rightarrow> tensor \<Rightarrow> nat list \<Rightarrow> real"
  wiener :: "tensor \<Rightarrow> tensor \<Rightarrow> int \<Rightarrow> bool \<Rightarrow> string option \<Rightarrow> tensor"

text \<open>
  \<^verbatim>\<open>torch.stft(x, n_fft, hop_length, window, center, normalized=False, onesided=True,
  pad_mode='reflect')\<close> on a 2-D input \<open>(n, len)\<close>: reflect padding by \<open>n_fft div 2\<close> on both
  sides when centred (it needs the padding to be shorter than the signal), then
  \<open>1 + (padded - n_fft) div hop\<close> frames of \<open>n_fft div 2 + 1\<close> bins.
\<close>

definition torch_stft :: "externals \<Rightarrow> tensor \<Rightarrow> nat \<Rightarrow> nat \<Rightarrow> tensor \<Rightarrow> bool \<Rightarrow> error + tensor" where
  "torch_stft L x nfft hop win cen =
     (case shape x of
        [n, len] \<Rightarrow>
          (let pad = (if cen then nfft div 2 else 0); padded = len + 2 * pad in
           if cen \<and> len \<le> pad then Inl RuntimeError
           else if nfft = 0 \<or> padded < nfft \<or> hop = 0 \<or> shape win \<noteq> [nfft]
             then Inl RuntimeError
           else Inr (mk [n, nfft div 2 + 1, 1 + (padded - nfft) div hop, 2]
                        (stft_val L nfft hop win cen x)))
      | _ \<Rightarrow> Inl RuntimeError)"

text \<open>
  \<^verbatim>\<open>istft(stft_matrix, n_fft, hop_length, window, center, normalized=False, onesided=True,
  pad_mode='reflect', length)\<close> on \<open>(..., n_fft div 2 + 1, frames, 2)\<close> returns
  \<open>(..., length)\<close>.
\<close>

definition istft :: "externals \<Rightarrow> tensor \<Rightarrow> nat \<Rightarrow> nat \<Rightarrow> tensor \<Rightarrow> bool \<Rightarrow> nat \<Rightarrow> error + tensor" where
  "istft L m nfft hop win cen len =
     (let s = shape m; r = length s in
      if r < 3 \<or> numel m = 0 then Inl AssertionError
      else if s ! (r - 3) \<noteq> nfft div 2 + 1 \<or> hop = 0 \<or> nfft < hop \<or> shape win \<noteq> [nfft]
        then Inl AssertionError
      else if s ! (r - 1) \<noteq> 2 then Inl RuntimeError
      else Inr (mk (take (r - 3) s @ [len]) (istft_val L nfft hop win cen len m)))"

record Linear =
  in_features :: nat
  out_features :: nat
  linear_val :: "tensor \<Rightarrow> nat list \<Rightarrow> real"

definition Linear_forward :: "Linear \<Rightarrow> tensor \<Rightarrow> error + tensor" where
  "Linear_forward l x =
     (if shape x \<noteq> [] \<and> last (shape x) = in_features l
      then Inr (mk (butlast (shape x) @ [out_features l]) (linear_val l x))
      else Inl RuntimeError)"

record BatchNorm1d =
  num_features :: nat
  bn_val :: "tensor \<Rightarrow> nat list \<Rightarrow> real"

definition BatchNorm1d_forward :: "BatchNorm1d \<Rightarrow> tensor \<Rightarrow> error + tensor" where
  "BatchNorm1d_forward b x =
     (if length (shape x) \<noteq> 2 \<and> length (shape x) \<noteq> 3 then Inl ValueError
      else if shape x ! 1 \<noteq> num_features b then Inl RuntimeError
      else Inr (mk (shape x) (bn_val b x)))"

record LSTM =
  input_size :: nat
  lstm_hidden_size :: nat
  num_layers :: nat
  bidirectional :: bool
  dropout :: real
  lstm_val :: "tensor \<Rightarrow> nat list \<Rightarrow> real"

text \<open>The first component of the pair an LSTM returns (\<^verbatim>\<open>lstm_out[0]\<close>), \<^verbatim>\<open>batch_first=False\<close>.\<close>

definition LSTM_forward :: "LSTM \<Rightarrow> tensor \<Rightarrow> error + tensor" where
  "LSTM_forward l x =
     (case shape x of
        [len, n, f] \<Rightarrow>
          if f = input_size l
          then Inr (mk [len, n, (if bidirectional l then 2 else 1) * lstm_hidden_size l]
                       (lstm_val l x))
          else Inl RuntimeError
      | _ \<Rightarrow> Inl RuntimeError)"

section \<open>The time-frequency transform and the spectrogram\<close>

datatype transform = NoOp | Sequential

record STFT =
  n_fft :: nat
  n_hop :: nat
  center :: bool
  window :: tensor

text \<open>\<^verbatim>\<open>torch.hann_window(n_fft)\<close> (periodic).\<close>

definition hann_window :: "nat \<Rightarrow> tensor" where
  "hann_window n =
     mk [n] (\<lambda>i. if n = 1 then 1 else (1 - cos (2 * pi * real (hd i) / real n)) / 2)"

definition STFT_init :: "nat \<Rightarrow> nat \<Rightarrow> bool \<Rightarrow> STFT" where
  "STFT_init nfft nhop cen =
     \<lparr>n_fft = nfft, n_hop = nhop, center = cen, window = hann_window nfft\<rparr>"

definition STFT_forward :: "externals \<Rightarrow> STFT \<Rightarrow> tensor \<Rightarrow> error + tensor" where
  "STFT_forward L st x =
     (case shape x of
        [nb_samples, nb_channels, nb_timesteps] \<Rightarrow>
          ebind (reshape_infer [nb_samples * nb_channels] [] x) (\<lambda>x.
          ebind (torch_stft L x (n_fft st) (n_hop st) (window st) (center st)) (\<lambda>stft_f.
          reshape_infer [nb_samples, nb_channels, n_fft st div 2 + 1] [2] stft_f))
      | _ \<Rightarrow> Inl ValueError)"

record Spectrogram =
  power' :: real
  mono' :: bool

text \<open>
  \<^verbatim>\<open>t.pow(p)\<close> for a float exponent on the sums of squares, which are never negative.
  (IEEE gives \<open>+\<infinity>\<close> for \<open>0\<close> to a negative power; no real number stands for it, and
  the model gives 0 there.)
\<close>

definition torch_pow :: "real \<Rightarrow> real \<Rightarrow> real" where
  "torch_pow v p = (if p = 0 then 1 else if v = 0 then 0 else v powr p)"

definition Spectrogram_forward :: "Spectrogram \<Rightarrow> tensor \<Rightarrow> error + tensor" where
  "Spectrogram_forward sp stft_f =
     ebind (transpose' 2 3 stft_f) (\<lambda>stft_f.
     ebind (sum_last (map_t (\<lambda>v. v * v) stft_f)) (\<lambda>stft_f.
     ebind (Inr (map_t (\<lambda>v. torch_pow v (power' sp / 2)) stft_f)) (\<lambda>stft_f.
     ebind (if mono' sp then mean_dim1_keep stft_f else Inr stft_f) (\<lambda>stft_f.
     permute [2, 0, 1, 3] stft_f))))"

definition NoOp_forward :: "view \<Rightarrow> view" where
  "NoOp_forward x = x"

section \<open>OpenUnmix: the estimator of one source\<close>

record OpenUnmix =
  nb_output_bins :: nat
  nb_bins :: nat
  hidden_size :: nat
  stft :: STFT
  spec :: Spectrogram
  sample_rate :: int
  transform :: transform
  fc1 :: Linear
  bn1 :: BatchNorm1d
  lstm :: LSTM
  fc2 :: Linear
  bn2 :: BatchNorm1d
  fc3 :: Linear
  bn3 :: BatchNorm1d
  input_mean :: tensor
  input_scale :: tensor
  output_scale :: tensor
  output_mean :: tensor

text \<open>The numbers the layers are initialised with (torch draws them at construction).\<close>

record weights =
  fc1_w :: "tensor \<Rightarrow> nat list \<Rightarrow> real"
  bn1_w :: "tensor \<Rightarrow> nat list \<Rightarrow> real"
  lstm_w :: "tensor \<Rightarrow> nat list \<Rightarrow> real"
  fc2_w :: "tensor \<Rightarrow> nat list \<Rightarrow> real"
  bn2_w :: "tensor \<Rightarrow> nat list \<Rightarrow> real"
  fc3_w :: "tensor \<Rightarrow> nat list \<Rightarrow> real"
  bn3_w :: "tensor \<Rightarrow> nat list \<Rightarrow> real"

text \<open>
  \<^verbatim>\<open>OpenUnmix.__init__\<close>. \<^verbatim>\<open>if max_bin:\<close> is false for \<^verbatim>\<open>None\<close> and for 0. Sizes are
  natural numbers: torch's layer constructors reject a negative one.
\<close>

definition OpenUnmix_init ::
  "weights \<Rightarrow> nat \<Rightarrow> nat \<Rightarrow> bool \<Rightarrow> nat \<Rightarrow> nat \<Rightarrow> int \<Rightarrow> nat \<Rightarrow> real list option \<Rightarrow>
   real list option \<Rightarrow> nat option \<Rightarrow> bool \<Rightarrow> real \<Rightarrow> OpenUnmix" where
  "OpenUnmix_init W nfft nhop input_is_spectrogram hidden nb_channels srate nb_layers
     in_mean in_scale max_bin unidirectional pw =
     (let out_bins = nfft div 2 + 1;
          bins = (case max_bin of None \<Rightarrow> out_bins
                  | Some b \<Rightarrow> if b \<noteq> 0 then b else out_bins);
          lstm_hidden = (if unidirectional then hidden else hidden div 2);
          fc2_hiddensize = hidden * 2
      in \<lparr>nb_output_bins = out_bins,
          nb_bins = bins,
          hidden_size = hidden,
          stft = STFT_init nfft nhop True,
          spec = \<lparr>power' = pw, mono' = (nb_channels = 1)\<rparr>,
          sample_rate = srate,
          transform = (if input_is_spectrogram then NoOp else Sequential),
          fc1 = \<lparr>in_features = bins * nb_channels, out_features = hidden,
                 linear_val = fc1_w W\<rparr>,
          bn1 = \<lparr>num_features = hidden, bn_val = bn1_w W\<rparr>,
          lstm = \<lparr>input_size = hidden, lstm_hidden_size = lstm_hidden,
                  num_layers = nb_layers, bidirectional = (\<not> unidirectional),
                  dropout = (if nb_layers > 1 then 4 / 10 else 0), lstm_val = lstm_w W\<rparr>,
          fc2 = \<lparr>in_features = fc2_hiddensize, out_features = hidden,
                 linear_val = fc2_w W\<rparr>,
          bn2 = \<lparr>num_features = hidden, bn_val = bn2_w W\<rparr>,
          fc3 = \<lparr>in_features = hidden, out_features = out_bins * nb_channels,
                 linear_val = fc3_w W\<rparr>,
          bn3 = \<lparr>num_features = out_bins * nb_channels, bn_val = bn3_w W\<rparr>,
          input_mean = (case in_mean of
                          Some m \<Rightarrow> from_list (map uminus (take bins m))
                        | None \<Rightarrow> zeros [bins]),
          input_scale = (case in_scale of
                           Some sc \<Rightarrow> from_list (map (\<lambda>v. 1 / v) (take bins sc))
                         | None \<Rightarrow> ones [bins]),
          output_scale = ones [out_bins],
          output_mean = ones [out_bins]\<rparr>)"

text \<open>
  \<^verbatim>\<open>self.transform(x)\<close>. \<open>NoOp\<close> hands back the caller's own tensor;
  \<^verbatim>\<open>nn.Sequential(self.stft, self.spec)\<close> computes a new one.
\<close>

definition transform_forward ::
  "externals \<Rightarrow> OpenUnmix \<Rightarrow> view \<Rightarrow> heap \<Rightarrow> error + (view \<times> heap)" where
  "transform_forward L um x h =
     (case transform um of
        NoOp \<Rightarrow> Inr (NoOp_forward x, h)
      | Sequential \<Rightarrow>
          ebind (STFT_forward L (stft um) (deref h x)) (\<lambda>stft_f.
          ebind (Spectrogram_forward (spec um) stft_f) (\<lambda>m. Inr (alloc h m))))"

text \<open>
  \<^verbatim>\<open>OpenUnmix.forward\<close>, in two parts. \<open>network\<close> is the stretch from
  \<^verbatim>\<open>x = self.fc1(x.reshape(-1, nb_channels*self.nb_bins))\<close> to \<^verbatim>\<open>x += self.output_mean\<close>:
  it works on tensors the call has made itself.
\<close>

definition network :: "OpenUnmix \<Rightarrow> nat \<Rightarrow> nat \<Rightarrow> nat \<Rightarrow> tensor \<Rightarrow> error + tensor" where
  "network um nb_frames nb_samples nb_channels x =
     ebind (reshape_infer [] [nb_channels * nb_bins um] x) (\<lambda>x.
     ebind (Linear_forward (fc1 um) x) (\<lambda>x.
     ebind (BatchNorm1d_forward (bn1 um) x) (\<lambda>x.
     ebind (reshape [nb_frames, nb_samples, hidden_size um] x) (\<lambda>x.
     ebind (Inr (map_t tanh x)) (\<lambda>x.
     ebind (LSTM_forward (lstm um) x) (\<lambda>lstm_out.
     ebind (cat_last x lstm_out) (\<lambda>x.
     ebind (reshape_infer [] [last (shape x)] x) (\<lambda>x.
     ebind (Linear_forward (fc2 um) x) (\<lambda>x.
     ebind (BatchNorm1d_forward (bn2 um) x) (\<lambda>x.
     ebind (Inr (relu x)) (\<lambda>x.
     ebind (Linear_forward (fc3 um) x) (\<lambda>x.
     ebind (BatchNorm1d_forward (bn3 um) x) (\<lambda>x.
     ebind (reshape [nb_frames, nb_samples, nb_channels, nb_output_bins um] x) (\<lambda>x.
     ebind (inplace_val (*) x (output_scale um)) (\<lambda>x.
     inplace_val (+) x (output_mean um))))))))))))))))"

text \<open>
  The whole of \<^verbatim>\<open>forward\<close>. It returns the estimate and the store as the call leaves
  it. \<open>mix\<close> is a copy (\<^verbatim>\<open>x.detach().clone()\<close>); the cropped \<open>x\<close> is a view, and
  \<^verbatim>\<open>x += self.input_mean\<close>, \<^verbatim>\<open>x *= self.input_scale\<close> write through it.
\<close>

definition OpenUnmix_forward ::
  "externals \<Rightarrow> OpenUnmix \<Rightarrow> view \<Rightarrow> heap \<Rightarrow> error + (tensor \<times> heap)" where
  "OpenUnmix_forward L um x0 h0 =
     ebind (transform_forward L um x0 h0) (\<lambda>(x, h).
     case vshape x of
       [nb_frames, nb_samples, nb_channels, nb_bins_in] \<Rightarrow>
         (let mix = deref h x;
              x = narrow_last (nb_bins um) x
          in ebind (inplace (+) h x (input_mean um)) (\<lambda>h.
             ebind (inplace (*) h x (input_scale um)) (\<lambda>h.
             ebind (network um nb_frames nb_samples nb_channels (deref h x)) (\<lambda>x.
             ebind (mul (relu x) mix) (\<lambda>x.
             Inr (x, h))))))
     | _ \<Rightarrow> Inl ValueError)"

section \<open>Separator\<close>

text \<open>
  \<open>targets\<close> is the \<^verbatim>\<open>nn.ModuleDict\<close>: keys in insertion order, each once. The
  constructor's \<^verbatim>\<open>softmask\<close> argument is stored in no field.
\<close>

record Separator =
  niter :: int
  residual :: "string option"
  batch_size :: "int option"
  targets :: "(string \<times> OpenUnmix) list"
  nb_targets :: nat
  sep_sample_rate :: int

text \<open>
  \<^verbatim>\<open>nn.ModuleDict(targets)\<close>: a key given again keeps its place and takes the new
  module.
\<close>

definition ModuleDict :: "(string \<times> OpenUnmix) list \<Rightarrow> (string \<times> OpenUnmix) list" where
  "ModuleDict kvs = fold (\<lambda>(k, v). AList.update k v) kvs []"

text \<open>\<^verbatim>\<open>next(iter(d.values()))\<close> raises \<^verbatim>\<open>StopIteration\<close> on an empty dictionary.\<close>

definition next_value :: "(string \<times> 'a) list \<Rightarrow> error + 'a" where
  "next_value d = (case d of [] \<Rightarrow> Inl StopIteration | (k, v) # rest \<Rightarrow> Inr v)"

definition Separator_init ::
  "(string \<times> OpenUnmix) list \<Rightarrow> int \<Rightarrow> bool \<Rightarrow> string option \<Rightarrow> int option \<Rightarrow>
   error + Separator" where
  "Separator_init tgts n_iter softmask resid bsize =
     (let d = ModuleDict tgts in
      ebind (next_value d) (\<lambda>first.
      Inr \<lparr>niter = n_iter, residual = resid, batch_size = bsize, targets = d,
           nb_targets = length d, sep_sample_rate = sample_rate first\<rparr>))"

subsection \<open>Indexing by sample and frame list\<close>

text \<open>
  \<^verbatim>\<open>x[..., j] = src\<close>, \<^verbatim>\<open>x[sample, t]\<close> and \<^verbatim>\<open>x[sample, t] = r\<close> for a list \<open>t\<close> of frame
  indices (the tensor \<^verbatim>\<open>torch.arange\<close> returned). An index past the axis raises; the
  right-hand side of an assignment is broadcast to the slice.
\<close>

definition assign_last :: "tensor \<Rightarrow> nat \<Rightarrow> tensor \<Rightarrow> error + tensor" where
  "assign_last x j src =
     (if shape x = [] \<or> last (shape x) \<le> j then Inl IndexError
      else ebind (expand (butlast (shape x)) src) (\<lambda>src.
             Inr (mk (shape x) (\<lambda>i. if last i = j then elem src (butlast i) else elem x i))))"

definition select :: "tensor \<Rightarrow> nat \<Rightarrow> nat list \<Rightarrow> error + tensor" where
  "select x sample t =
     (case shape x of
        n0 # n1 # rest \<Rightarrow>
          if sample < n0 \<and> list_all (\<lambda>f. f < n1) t
          then Inr (mk (length t # rest) (\<lambda>i. elem x (sample # t ! hd i # tl i)))
          else Inl IndexError
      | _ \<Rightarrow> Inl IndexError)"

definition index_put :: "tensor \<Rightarrow> nat \<Rightarrow> nat list \<Rightarrow> tensor \<Rightarrow> error + tensor" where
  "index_put x sample t r =
     (case shape x of
        n0 # n1 # rest \<Rightarrow>
          if sample < n0 \<and> list_all (\<lambda>f. f < n1) t
          then ebind (expand (length t # rest) r) (\<lambda>r.
                 Inr (mk (shape x)
                        (\<lambda>i. if hd i = sample \<and> i ! 1 \<in> set t
                             then elem r (index_of t (i ! 1) # drop 2 i) else elem x i)))
          else Inl IndexError
      | _ \<Rightarrow> Inl IndexError)"

text \<open>\<^verbatim>\<open>torch.arange(start, end)\<close>: the integers from \<open>start\<close> up to \<open>end - 1\<close>; an end below the start raises.\<close>

definition arange :: "nat \<Rightarrow> int \<Rightarrow> error + nat list" where
  "arange a b = (if b < int a then Inl RuntimeError else Inr [a..<nat b])"

subsection \<open>The loop over the targets\<close>

text \<open>
  \<^verbatim>\<open>for j, target in enumerate(self.targets)\<close>: the state is \<open>spectrograms\<close> (\<^verbatim>\<open>None\<close>
  until the first target has run), the variable \<open>unmix_target\<close> (used after the loop,
  where it holds the last target) and the store.
\<close>

fun run_targets ::
  "externals \<Rightarrow> Separator \<Rightarrow> view \<Rightarrow> nat \<Rightarrow> nat \<Rightarrow> string list \<Rightarrow>
   tensor option \<times> OpenUnmix option \<times> heap \<Rightarrow>
   error + (tensor option \<times> OpenUnmix option \<times> heap)" where
  "run_targets L sep audio nb_sources j [] st = Inr st"
| "run_targets L sep audio nb_sources j (target # rest) (spectrograms, um, h) =
     (case map_of (targets sep) target of
        None \<Rightarrow> Inl KeyError
      | Some unmix_target \<Rightarrow>
          ebind (OpenUnmix_forward L unmix_target audio h) (\<lambda>(target_spectrogram, h).
          ebind (Inr (case spectrograms of
                        None \<Rightarrow> zeros (shape target_spectrogram @ [nb_sources])
                      | Some sp \<Rightarrow> sp)) (\<lambda>spectrograms.
          ebind (assign_last spectrograms j target_spectrogram) (\<lambda>spectrograms.
          run_targets L sep audio nb_sources (Suc j) rest
            (Some spectrograms, Some unmix_target, h)))))"

subsection \<open>The refinement loop\<close>

text \<open>
  One entry per call of \<^verbatim>\<open>wiener\<close>: the sample, the frame window \<open>t\<close>, and the
  iteration count, soft-mask flag and residual name the call passes.
\<close>

record wiener_call =
  call_sample :: nat
  call_frames :: "nat list"
  call_iterations :: int
  call_use_softmask :: bool
  call_residual :: "string option"

text \<open>
  \<^verbatim>\<open>while pos < nb_frames\<close> for one sample. The state is \<open>targets_stft\<close> and the log of
  the calls made so far. \<^verbatim>\<open>t[-1]\<close> raises on an empty \<open>t\<close>.
\<close>

function refine_windows ::
  "externals \<Rightarrow> Separator \<Rightarrow> tensor \<Rightarrow> tensor \<Rightarrow> nat \<Rightarrow> int \<Rightarrow> nat \<Rightarrow> nat \<Rightarrow>
   tensor \<times> wiener_call list \<Rightarrow> error + (tensor \<times> wiener_call list)" where
  "refine_windows L sep spectrograms mix_stft nb_frames bsize sample pos (targets_stft, calls) =
     (if pos < nb_frames then
        (case arange pos (min (int nb_frames) (int pos + bsize)) of
           Inl e \<Rightarrow> Inl e
         | Inr t \<Rightarrow>
             if t = [] then Inl IndexError
             else
               (case select spectrograms sample t of
                  Inl e \<Rightarrow> Inl e
                | Inr v \<Rightarrow>
                    (case select mix_stft sample t of
                       Inl e \<Rightarrow> Inl e
                     | Inr x \<Rightarrow>
                         (case index_put targets_stft sample t
                                 (wiener L v x (niter sep) False (residual sep)) of
                            Inl e \<Rightarrow> Inl e
                          | Inr targets_stft' \<Rightarrow>
                              refine_windows L sep spectrograms mix_stft nb_frames bsize sample
                                (last t + 1)
                                (targets_stft',
                                 calls @ [\<lparr>call_sample = sample, call_frames = t,
                                           call_iterations = niter sep,
                                           call_use_softmask = False,
                                           call_residual = residual sep\<rparr>])))))
      else Inr (targets_stft, calls))"
  by pat_completeness auto
termination
  by (relation "measure (\<lambda>(L, sep, sp, mx, nb_frames, bsize, sample, pos, st). nb_frames - pos)")
     (auto simp: arange_def split: if_splits)

text \<open>
  \<^verbatim>\<open>for sample in range(nb_samples)\<close>, with
  \<^verbatim>\<open>batch_size = self.batch_size if self.batch_size else nb_frames\<close> (\<^verbatim>\<open>None\<close> and 0 are false).
\<close>

fun refine_samples ::
  "externals \<Rightarrow> Separator \<Rightarrow> tensor \<Rightarrow> tensor \<Rightarrow> nat \<Rightarrow> nat list \<Rightarrow>
   tensor \<times> wiener_call list \<Rightarrow> error + (tensor \<times> wiener_call list)" where
  "refine_samples L sep spectrograms mix_stft nb_frames [] st = Inr st"
| "refine_samples L sep spectrograms mix_stft nb_frames (sample # rest) st =
     (let pos = 0;
          bsize = (case batch_size sep of
                     None \<Rightarrow> int nb_frames
                   | Some b \<Rightarrow> if b \<noteq> 0 then b else int nb_frames)
      in ebind (refine_windows L sep spectrograms mix_stft nb_frames bsize sample pos st) (\<lambda>st.
         refine_samples L sep spectrograms mix_stft nb_frames rest st))"

subsection \<open>forward\<close>

text \<open>What a Python variable named \<open>estimates\<close> can hold: a dictionary or a tensor.\<close>

datatype estimates = Dict "(string \<times> tensor) list" | Tensor tensor

text \<open>
  \<^verbatim>\<open>Separator.forward\<close>, returning what the function returns, the store, and the log of
  the \<^verbatim>\<open>wiener\<close> calls. The list \<open>tgts\<close> (\<^verbatim>\<open>targets\<close> in the source) is read once, for its
  length; \<^verbatim>\<open>estimates = {}\<close> is overwritten by the result of \<^verbatim>\<open>istft\<close>.
\<close>

definition Separator_forward_log ::
  "externals \<Rightarrow> Separator \<Rightarrow> view \<Rightarrow> heap \<Rightarrow> error + (estimates \<times> heap \<times> wiener_call list)" where
  "Separator_forward_log L sep audio h0 =
     (let nb_sources = nb_targets sep in
      case vshape audio of
        [] \<Rightarrow> Inl IndexError
      | nb_samples # _ \<Rightarrow>
      ebind (run_targets L sep audio nb_sources 0 (map fst (targets sep)) (None, None, h0))
        (\<lambda>(spectrograms, unmix_target, h).
      case (spectrograms, unmix_target) of
        (Some spectrograms, Some unmix_target) \<Rightarrow>
          ebind (permute [1, 0, 3, 2, 4] spectrograms) (\<lambda>spectrograms.
          ebind (STFT_forward L (stft unmix_target) (deref h audio)) (\<lambda>mix_stft.
          ebind (permute [0, 3, 2, 1, 4] mix_stft) (\<lambda>mix_stft.
          let tgts = map fst (targets sep);
              tgts = (case residual sep of None \<Rightarrow> tgts | Some r \<Rightarrow> tgts @ [r]);
              nb_sources = (case residual sep of None \<Rightarrow> nb_sources | Some r \<Rightarrow> nb_sources + 1)
          in if length tgts = 1 \<and> niter sep > 0 then Inl CannotUseEM
             else
               (let nb_frames = shape spectrograms ! 1;
                    targets_stft = zeros (shape mix_stft @ [nb_sources])
                in ebind (refine_samples L sep spectrograms mix_stft nb_frames [0..<nb_samples]
                            (targets_stft, []))
                     (\<lambda>(targets_stft, calls).
                   let estimates = Dict [] in
                   ebind (permute [0, 5, 3, 2, 1, 4] targets_stft) (\<lambda>targets_stft.
                   ebind (istft L targets_stft (n_fft (stft unmix_target))
                            (n_hop (stft unmix_target)) (window (stft unmix_target))
                            (center (stft unmix_target)) (last (vshape audio))) (\<lambda>estimates.
                   Inr (Tensor estimates, h, calls))))))))
      | _ \<Rightarrow> Inl AttributeError))"

definition Separator_forward ::
  "externals \<Rightarrow> Separator \<Rightarrow> view \<Rightarrow> heap \<Rightarrow> error + (estimates \<times> heap)" where
  "Separator_forward L sep audio h0 =
     ebind (Separator_forward_log L sep audio h0) (\<lambda>(estimates, h, calls). Inr (estimates, h))"

section \<open>Notions the theorems are stated with\<close>

text \<open>
  The number of frames \<^verbatim>\<open>torch.stft\<close> returns for a signal of \<open>len\<close> samples;
  that the layers of an estimator fit one another for \<open>C\<close> spectrogram channels (what
  \<^verbatim>\<open>OpenUnmix.__init__\<close> sets up); and that no entry of a tensor is negative.
\<close>

definition nb_frames_of :: "nat \<Rightarrow> nat \<Rightarrow> bool \<Rightarrow> nat \<Rightarrow> nat" where
  "nb_frames_of nfft hop cen len =
     1 + (len + 2 * (if cen then nfft div 2 else 0) - nfft) div hop"

definition layers_fit :: "OpenUnmix \<Rightarrow> nat \<Rightarrow> bool" where
  "layers_fit um C \<longleftrightarrow>
     C * nb_bins um \<noteq> 0 \<and>
     in_features (fc1 um) = C * nb_bins um \<and>
     out_features (fc1 um) = hidden_size um \<and>
     num_features (bn1 um) = hidden_size um \<and>
     input_size (lstm um) = hidden_size um \<and>
     in_features (fc2 um) =
       hidden_size um + (if bidirectional (lstm um) then 2 else 1) * lstm_hidden_size (lstm um) \<and>
     in_features (fc2 um) \<noteq> 0 \<and>
     num_features (bn2 um) = out_features (fc2 um) \<and>
     in_features (fc3 um) = out_features (fc2 um) \<and>
     out_features (fc3 um) = C * nb_output_bins um \<and>
     num_features (bn3 um) = out_features (fc3 um) \<and>
     shape (output_scale um) = [nb_output_bins um] \<and>
     shape (output_mean um) = [nb_output_bins um]"



text \<open>
  Modelled from the spec: \<^verbatim>\<open>filtering.wiener\<close> is not among the sources. The spec's
  interface for the refinement primitive says it returns the per-source complex
  spectrogram of the mixture slice it is given, one slice per source, and appends a
  slice for the residual when one is requested.
\<close>

definition wiener_shape_contract :: "externals \<Rightarrow> bool" where
  "wiener_shape_contract L \<longleftrightarrow>
     (\<forall>v x n sm r. shape (wiener L v x n sm r) =
                    shape x @ [last (shape v) + (if r = None then 0 else 1)])"

definition window_size :: "Separator \<Rightarrow> nat \<Rightarrow> int" where
  "window_size sep nb_frames =
     (case batch_size sep of None \<Rightarrow> int nb_frames
      | Some b \<Rightarrow> if b \<noteq> 0 then b else int nb_frames)"


definition estimator_fits :: "nat \<Rightarrow> nat \<Rightarrow> bool \<Rightarrow> bool \<Rightarrow> nat \<Rightarrow> OpenUnmix \<Rightarrow> bool" where
  "estimator_fits N H cen mo C u \<longleftrightarrow>
     transform u = Sequential \<and> n_fft (stft u) = N \<and> n_hop (stft u) = H \<and>
     center (stft u) = cen \<and> shape (window (stft u)) = [N] \<and> mono' (spec u) = mo \<and>
     nb_bins u \<le> N div 2 + 1 \<and> nb_output_bins u = N div 2 + 1 \<and>
     shape (input_mean u) = [nb_bins u] \<and> shape (input_scale u) = [nb_bins u] \<and>
     layers_fit u (if mo then 1 else C)"

definition audio_fits :: "nat \<Rightarrow> nat \<Rightarrow> bool \<Rightarrow> nat \<Rightarrow> nat \<Rightarrow> nat \<Rightarrow> bool" where
  "audio_fits N H cen B C T \<longleftrightarrow>
     0 < B \<and> 0 < C \<and> 0 < N \<and> 0 < H \<and> (if cen then N div 2 < T else N \<le> T)"

definition residual_count :: "Separator \<Rightarrow> nat" where
  "residual_count sep = (case residual sep of None \<Rightarrow> 0 | Some r \<Rightarrow> 1)"

definition sep_fits :: "nat \<Rightarrow> nat \<Rightarrow> bool \<Rightarrow> bool \<Rightarrow> nat \<Rightarrow> Separator \<Rightarrow> bool" where
  "sep_fits N H cen mo C sep \<longleftrightarrow>
     targets sep \<noteq> [] \<and> nb_targets sep = length (targets sep) \<and>
     list_all (\<lambda>name. case map_of (targets sep) name of None \<Rightarrow> False
                | Some u \<Rightarrow> estimator_fits N H cen mo C u) (map fst (targets sep)) \<and>
     H \<le> N \<and> (case batch_size sep of None \<Rightarrow> True | Some b \<Rightarrow> 0 \<le> b)"

text \<open>
  For the comparison of windowed and one-pass refinement. \<open>take_frames t v\<close> is \<^verbatim>\<open>v[t]\<close>,
  the frames \<open>t\<close> of a per-sample tensor. A refinement primitive is \<open>framewise\<close> when,
  on arguments of the rank \<open>forward\<close> passes, its result on a selection of frames is
  that selection of its result on all of them.
  \<open>full_refined\<close> is what the single call of an unwindowed run returns for one sample.
  A tensor is \<open>wf\<close> when it is zero outside its shape, as every tensor \<open>mk\<close> builds.
\<close>

definition take_frames :: "nat list \<Rightarrow> tensor \<Rightarrow> tensor" where
  "take_frames t v = mk (length t # tl (shape v)) (\<lambda>i. elem v (t ! hd i # tl i))"

definition framewise :: "externals \<Rightarrow> int \<Rightarrow> string option \<Rightarrow> bool" where
  "framewise L n r \<longleftrightarrow>
     (\<forall>v x t. length (shape v) = 4 \<and> length (shape x) = 4 \<and>
              list_all (\<lambda>f. f < hd (shape v) \<and> f < hd (shape x)) t \<longrightarrow>
        wiener L (take_frames t v) (take_frames t x) n False r
        = take_frames t (wiener L v x n False r))"

definition wf :: "tensor \<Rightarrow> bool" where
  "wf t \<longleftrightarrow> (\<forall>i. \<not> in_range (shape t) i \<longrightarrow> elem t i = 0)"

definition full_refined :: "externals \<Rightarrow> Separator \<Rightarrow> tensor \<Rightarrow> tensor \<Rightarrow> nat \<Rightarrow> tensor" where
  "full_refined L sep sp mx sample =
     wiener L (projr (select sp sample [0..<shape sp ! 1]))
       (projr (select mx sample [0..<shape sp ! 1])) (niter sep) False (residual sep)"

section \<open>Example objects\<close>

text \<open>
  Small estimators, library numerics and stores, used where a theorem is applied to a
  concrete input: window 4 and hop 1 (window 2 for the spectrogram-input estimator),
  hidden size 2, layers whose weights are all zero. \<open>zero_externals\<close> computes zeros;
  its \<open>wiener\<close> returns one slice per target, and one more for a residual, on the
  mixture's shape.
\<close>

definition zero_weights :: weights where
  "zero_weights =
     \<lparr>fc1_w = (\<lambda>x i. 0), bn1_w = (\<lambda>x i. 0), lstm_w = (\<lambda>x i. 0), fc2_w = (\<lambda>x i. 0),
      bn2_w = (\<lambda>x i. 0), fc3_w = (\<lambda>x i. 0), bn3_w = (\<lambda>x i. 0)\<rparr>"

definition small_unmix :: OpenUnmix where
  "small_unmix = OpenUnmix_init zero_weights 4 1 False 2 2 44100 1 None None None False 1"

definition zero_externals :: externals where
  "zero_externals =
     \<lparr>stft_val = (\<lambda>nfft hop win cen x i. 0),
      istft_val = (\<lambda>nfft hop win cen len m i. 0),
      wiener = (\<lambda>v x n softmask r.
                  zeros (shape x @ [last (shape v) + (if r = None then 0 else 1)]))\<rparr>"

definition mono_unmix :: OpenUnmix where
  "mono_unmix = OpenUnmix_init zero_weights 4 1 False 2 1 44100 1 None None None False 1"

definition spectrogram_unmix :: OpenUnmix where
  "spectrogram_unmix =
     OpenUnmix_init zero_weights 2 1 True 2 1 44100 1 (Some [1]) None (Some 1) False 1"

definition store_of :: "tensor \<Rightarrow> heap" where
  "store_of t = \<lparr>cell = (\<lambda>a. t), next_free = 1\<rparr>"

definition arg_of :: "tensor \<Rightarrow> view" where
  "arg_of t = \<lparr>base = 0, vshape = shape t\<rparr>"

text \<open>Separators over the small estimator: one target, and two.\<close>

definition small_sep :: "int \<Rightarrow> string option \<Rightarrow> int option \<Rightarrow> Separator" where
  "small_sep n r b = projr (Separator_init [(''vocals'', small_unmix)] n False r b)"


section \<open>Shapes of the tensor operations\<close>

lemma ebind_Inr_iff: "ebind m f = Inr y \<longleftrightarrow> (\<exists>x. m = Inr x \<and> f x = Inr y)"
  by (cases m) auto

lemma ebind_Inl_iff: "ebind m f = Inl e \<longleftrightarrow> m = Inl e \<or> (\<exists>x. m = Inr x \<and> f x = Inl e)"
  by (cases m) auto

lemma shape_mk [simp]: "shape (mk s f) = s"
  by (simp add: mk_def)

lemma elem_mk: "elem (mk s f) i = (if in_range s i then f i else 0)"
  by (simp add: mk_def)

lemma numel_mk [simp]: "numel (mk s f) = prod_list s"
  by (simp add: numel_def)

lemma shape_map_t [simp]: "shape (map_t f t) = shape t"
  by (simp add: map_t_def)

lemma shape_relu [simp]: "shape (relu t) = shape t"
  by (simp add: relu_def)

lemma shape_zeros [simp]: "shape (zeros s) = s"
  by (simp add: zeros_def)

lemma shape_ones [simp]: "shape (ones s) = s"
  by (simp add: ones_def)

lemma shape_from_list [simp]: "shape (from_list xs) = [length xs]"
  by (simp add: from_list_def)

lemma shape_deref [simp]: "shape (deref h v) = vshape v"
  by (simp add: deref_def)

lemma expandable_rev_refl: "expandable_rev s s"
  by (induction s) auto

lemma expandable_refl [simp]: "expandable s s"
  by (simp add: expandable_def expandable_rev_refl)

lemma expandable_last [simp]: "expandable [n] (s @ [n])"
  by (simp add: expandable_def)

lemma expand_shape: "expand d t = Inr y \<Longrightarrow> shape y = d"
  by (auto simp: expand_def split: if_splits)

lemma expand_ok: "expandable (shape t) d \<Longrightarrow> \<exists>y. expand d t = Inr y \<and> shape y = d"
  by (simp add: expand_def)

lemma bshape_rev_same: "bshape_rev s s = Some s"
  by (induction s) auto

lemma bshape_same [simp]: "bshape s s = Some s"
  by (simp add: bshape_def bshape_rev_same)

lemma mul_same_shape: "shape a = shape b \<Longrightarrow> \<exists>y. mul a b = Inr y \<and> shape y = shape a"
  by (simp add: mul_def)

lemma inplace_val_shape: "inplace_val f x other = Inr y \<Longrightarrow> shape y = shape x"
  by (auto simp: inplace_val_def ebind_Inr_iff)

lemma inplace_val_ok:
  "expandable (shape other) (shape x) \<Longrightarrow> \<exists>y. inplace_val f x other = Inr y \<and> shape y = shape x"
  by (auto simp: inplace_val_def expand_def)

lemma reshape_shape: "reshape s t = Inr y \<Longrightarrow> shape y = s"
  by (auto simp: reshape_def split: if_splits)

lemma reshape_ok: "prod_list s = numel t \<Longrightarrow> \<exists>y. reshape s t = Inr y \<and> shape y = s"
  by (simp add: reshape_def)

lemma reshape_infer_shape:
  "reshape_infer pre post t = Inr y \<Longrightarrow>
   shape y = pre @ [numel t div (prod_list pre * prod_list post)] @ post"
  by (auto simp: reshape_infer_def Let_def reshape_def split: if_splits)

lemma reshape_infer_ok:
  "prod_list pre * prod_list post \<noteq> 0 \<Longrightarrow> numel t = prod_list pre * prod_list post * k \<Longrightarrow>
   \<exists>y. reshape_infer pre post t = Inr y \<and> shape y = pre @ [k] @ post"
  by (auto simp: reshape_infer_def Let_def reshape_def)

lemma permute_shape: "permute dims t = Inr y \<Longrightarrow> shape y = map (\<lambda>d. shape t ! d) dims"
  by (auto simp: permute_def split: if_splits)

lemma permute_ok:
  "length dims = length (shape t) \<Longrightarrow> set dims = {0..<length (shape t)} \<Longrightarrow>
   \<exists>y. permute dims t = Inr y \<and> shape y = map (\<lambda>d. shape t ! d) dims"
  by (simp add: permute_def)

lemma upt_5: "[0..<5] = [0, 1, 2, 3, 4]" by (simp add: upt_rec)
lemma upt_6: "[0..<6] = [0, 1, 2, 3, 4, 5]" by (simp add: upt_rec)
lemma upt_4: "[0..<4] = [0, 1, 2, 3]" by (simp add: upt_rec)
lemma set_upt_4: "{0..<4::nat} = {0, 1, 2, 3}" by auto
lemma set_upt_5: "{0..<5::nat} = {0, 1, 2, 3, 4}" by auto
lemma set_upt_6: "{0..<6::nat} = {0, 1, 2, 3, 4, 5}" by auto

lemma transpose_2_3:
  "shape t = [a, b, c, d, e] \<Longrightarrow> \<exists>y. transpose' 2 3 t = Inr y \<and> shape y = [a, b, d, c, e]"
  by (auto simp: transpose'_def permute_def upt_5 set_upt_5)

lemma permute_2013:
  "shape t = [a, b, c, d] \<Longrightarrow> \<exists>y. permute [2, 0, 1, 3] t = Inr y \<and> shape y = [c, a, b, d]"
  by (auto simp: permute_def set_upt_4)

lemma permute_10324:
  "shape t = [a, b, c, d, e] \<Longrightarrow>
   \<exists>y. permute [1, 0, 3, 2, 4] t = Inr y \<and> shape y = [b, a, d, c, e]"
  by (auto simp: permute_def set_upt_5)

lemma permute_03214:
  "shape t = [a, b, c, d, e] \<Longrightarrow>
   \<exists>y. permute [0, 3, 2, 1, 4] t = Inr y \<and> shape y = [a, d, c, b, e]"
  by (auto simp: permute_def set_upt_5)

lemma permute_053214:
  "shape t = [a, b, c, d, e, g] \<Longrightarrow>
   \<exists>y. permute [0, 5, 3, 2, 1, 4] t = Inr y \<and> shape y = [a, g, d, c, b, e]"
  by (auto simp: permute_def set_upt_6)

lemma sum_last_ok:
  "shape t \<noteq> [] \<Longrightarrow> \<exists>y. sum_last t = Inr y \<and> shape y = butlast (shape t)"
  by (simp add: sum_last_def)

lemma mean_dim1_keep_ok:
  "2 \<le> length (shape t) \<Longrightarrow> \<exists>y. mean_dim1_keep t = Inr y \<and> shape y = (shape t)[1 := 1]"
  by (simp add: mean_dim1_keep_def)


lemma torch_stft_shape:
  "torch_stft L x nfft hop win cen = Inr y \<Longrightarrow> shape x = [n, len] \<Longrightarrow>
   shape y = [n, nfft div 2 + 1, nb_frames_of nfft hop cen len, 2]"
  by (auto simp: torch_stft_def nb_frames_of_def Let_def split: if_splits)

lemma reshape_infer_Inr_D:
  "reshape_infer pre post t = Inr y \<Longrightarrow>
   prod_list pre * prod_list post \<noteq> 0 \<and>
   shape y = pre @ [numel t div (prod_list pre * prod_list post)] @ post"
  by (auto simp: reshape_infer_def Let_def reshape_def split: if_splits)

lemma STFT_forward_shape:
  assumes "STFT_forward L st x = Inr y" and "shape x = [B, C, T]"
  shows "shape y = [B, C, n_fft st div 2 + 1, nb_frames_of (n_fft st) (n_hop st) (center st) T, 2]"
proof -
  from assms obtain x1 s1 where
    x1: "reshape_infer [B * C] [] x = Inr x1" and
    s1: "torch_stft L x1 (n_fft st) (n_hop st) (window st) (center st) = Inr s1" and
    y: "reshape_infer [B, C, n_fft st div 2 + 1] [2] s1 = Inr y"
    by (auto simp: STFT_forward_def ebind_Inr_iff)
  from reshape_infer_Inr_D [OF x1] assms(2)
  have "shape x1 = [B * C, T]" by (auto simp: numel_def)
  from torch_stft_shape [OF s1 this]
  have sh: "shape s1 = [B * C, n_fft st div 2 + 1,
                        nb_frames_of (n_fft st) (n_hop st) (center st) T, 2]" .
  let ?F = "nb_frames_of (n_fft st) (n_hop st) (center st) T"
  let ?k = "prod_list [B, C, n_fft st div 2 + 1] * prod_list [2]"
  from reshape_infer_Inr_D [OF y]
  have nz: "?k \<noteq> 0" and sy: "shape y = [B, C, n_fft st div 2 + 1] @ [numel s1 div ?k] @ [2]"
    by blast+
  have "numel s1 = ?k * ?F"
    using sh by (simp add: numel_def algebra_simps)
  then have "numel s1 div ?k = ?F"
    using nz by (metis nonzero_mult_div_cancel_left)
  with sy show ?thesis by simp
qed

lemma transpose_2_3_shape:
  "transpose' 2 3 t = Inr y \<Longrightarrow> shape t = [a, b, c, d, e] \<Longrightarrow> shape y = [a, b, d, c, e]"
  using transpose_2_3 [of t a b c d e] by auto

lemma sum_last_shape: "sum_last t = Inr y \<Longrightarrow> shape y = butlast (shape t)"
  by (auto simp: sum_last_def split: if_splits)

lemma mean_dim1_keep_shape: "mean_dim1_keep t = Inr y \<Longrightarrow> shape y = (shape t)[1 := 1]"
  by (auto simp: mean_dim1_keep_def split: if_splits)

lemma Spectrogram_forward_shape:
  assumes "Spectrogram_forward sp s = Inr y" and "shape s = [B, C, K, F, 2]"
  shows "shape y = [F, B, if mono' sp then 1 else C, K]"
proof -
  from assms(1) obtain s1 s2 s4 where
    s1: "transpose' 2 3 s = Inr s1" and
    s2: "sum_last (map_t (\<lambda>v. v * v) s1) = Inr s2" and
    s4: "(if mono' sp then mean_dim1_keep (map_t (\<lambda>v. torch_pow v (power' sp / 2)) s2)
          else Inr (map_t (\<lambda>v. torch_pow v (power' sp / 2)) s2)) = Inr s4" and
    y: "permute [2, 0, 1, 3] s4 = Inr y"
    by (auto simp: Spectrogram_forward_def ebind_Inr_iff)
  have h1: "shape s1 = [B, C, F, K, 2]"
    using transpose_2_3_shape [OF s1 assms(2)] .
  have h2: "shape s2 = [B, C, F, K]"
    using sum_last_shape [OF s2] h1 by simp
  have h4: "shape s4 = [B, if mono' sp then 1 else C, F, K]"
    using s4 h2 by (auto dest: mean_dim1_keep_shape split: if_splits)
  show ?thesis
    using permute_shape [OF y] h4 by simp
qed

section \<open>Shape of the estimate\<close>

lemma ebind_InrE:
  assumes "ebind m f = Inr y"
  obtains x where "m = Inr x" and "f x = Inr y"
  using assms by (cases m) auto

lemma network_shape:
  assumes "network um F B C x = Inr y"
  shows "shape y = [F, B, C, nb_output_bins um]"
  using assms unfolding network_def
  apply (elim ebind_InrE)
  apply (drule inplace_val_shape)+
  apply (drule reshape_shape)+
  apply simp
  done


lemma case_list4_Inr:
  "(case s of [a, b, c, d] \<Rightarrow> f a b c d | _ \<Rightarrow> Inl e) = Inr r \<longleftrightarrow>
   (\<exists>a b c d. s = [a, b, c, d] \<and> f a b c d = Inr r)"
  by (auto split: list.splits)

lemma OpenUnmix_forward_D:
  assumes "OpenUnmix_forward L um x0 h0 = Inr (y, h')"
  shows "\<exists>x h F B C K h1 g.
     transform_forward L um x0 h0 = Inr (x, h) \<and>
     vshape x = [F, B, C, K] \<and>
     inplace (+) h (narrow_last (nb_bins um) x) (input_mean um) = Inr h1 \<and>
     inplace (*) h1 (narrow_last (nb_bins um) x) (input_scale um) = Inr h' \<and>
     network um F B C (deref h' (narrow_last (nb_bins um) x)) = Inr g \<and>
     mul (relu g) (deref h x) = Inr y"
  using assms unfolding OpenUnmix_forward_def
  by (auto simp: ebind_Inr_iff case_list4_Inr Let_def)

lemma transform_forward_Sequential_shape:
  assumes "transform_forward L um x h = Inr (xv, h1)" and "transform um = Sequential"
    and "vshape x = [B, C, T]"
  shows "vshape xv = [nb_frames_of (n_fft (stft um)) (n_hop (stft um)) (center (stft um)) T,
                      B, if mono' (spec um) then 1 else C, n_fft (stft um) div 2 + 1]"
proof -
  from assms(1,2) obtain s m where
    s: "STFT_forward L (stft um) (deref h x) = Inr s" and
    m: "Spectrogram_forward (spec um) s = Inr m" and
    a: "alloc h m = (xv, h1)"
    by (auto simp: transform_forward_def ebind_Inr_iff)
  have "shape (deref h x) = [B, C, T]" using assms(3) by simp
  from STFT_forward_shape [OF s this] Spectrogram_forward_shape [OF m]
  have "shape m = [nb_frames_of (n_fft (stft um)) (n_hop (stft um)) (center (stft um)) T,
                      B, if mono' (spec um) then 1 else C, n_fft (stft um) div 2 + 1]"
    by simp
  then show ?thesis using a by (auto simp: alloc_def)
qed

lemma mul_shape_same: "mul a b = Inr y \<Longrightarrow> shape a = shape b \<Longrightarrow> shape y = shape a"
  by (auto simp: mul_def)

theorem OpenUnmix_forward_shape:
  assumes "OpenUnmix_forward L um x h = Inr (y, h')"
    and "transform um = Sequential"
    and "vshape x = [B, C, T]"
    and "nb_output_bins um = n_fft (stft um) div 2 + 1"
  shows "shape y = [nb_frames_of (n_fft (stft um)) (n_hop (stft um)) (center (stft um)) T,
                    B, if mono' (spec um) then 1 else C, n_fft (stft um) div 2 + 1]"
proof -
  from OpenUnmix_forward_D [OF assms(1)] obtain xv h1 F' B' C' K' g where
    t: "transform_forward L um x h = Inr (xv, h1)" and
    v: "vshape xv = [F', B', C', K']" and
    g: "network um F' B' C' (deref h' (narrow_last (nb_bins um) xv)) = Inr g" and
    y: "mul (relu g) (deref h1 xv) = Inr y"
    by blast
  from transform_forward_Sequential_shape [OF t assms(2,3)] v
  have eq: "[F', B', C', K'] =
     [nb_frames_of (n_fft (stft um)) (n_hop (stft um)) (center (stft um)) T,
      B, if mono' (spec um) then 1 else C, n_fft (stft um) div 2 + 1]"
    by simp
  from network_shape [OF g] have sg: "shape g = [F', B', C', nb_output_bins um]" .
  with eq assms(4) v have "shape (relu g) = shape (deref h1 xv)" by simp
  from mul_shape_same [OF y this] have "shape y = [F', B', C', nb_output_bins um]"
    using sg by simp
  with eq assms(4) show ?thesis by simp
qed

section \<open>When the estimator returns\<close>

lemma Linear_forward_ok:
  "shape x = s @ [in_features l] \<Longrightarrow>
   \<exists>y. Linear_forward l x = Inr y \<and> shape y = s @ [out_features l]"
  by (simp add: Linear_forward_def)

lemma BatchNorm1d_forward_ok:
  "shape x = [n, num_features b] \<Longrightarrow> \<exists>y. BatchNorm1d_forward b x = Inr y \<and> shape y = shape x"
  by (simp add: BatchNorm1d_forward_def)

lemma LSTM_forward_ok:
  "shape x = [len, n, input_size l] \<Longrightarrow>
   \<exists>y. LSTM_forward l x = Inr y \<and>
       shape y = [len, n, (if bidirectional l then 2 else 1) * lstm_hidden_size l]"
  by (simp add: LSTM_forward_def)

lemma cat_last_ok:
  "shape a = s @ [m] \<Longrightarrow> shape b = s @ [n] \<Longrightarrow>
   \<exists>y. cat_last a b = Inr y \<and> shape y = s @ [m + n]"
  by (simp add: cat_last_def)

lemma expandable_last4 [simp]: "expandable [n] [a, b, c, n]"
  using expandable_last [of n "[a, b, c]"] by simp

lemma network_ok:
  assumes fit: "layers_fit um C" and sx: "shape x = [F, B, C, nb_bins um]"
  shows "\<exists>g. network um F B C x = Inr g"
proof -
  let ?H = "hidden_size um"
  let ?D = "(if bidirectional (lstm um) then 2 else 1) * lstm_hidden_size (lstm um)"
  have "numel x = prod_list [] * prod_list [C * nb_bins um] * (F * B)"
    using sx by (simp add: numel_def)
  with fit obtain x1 where x1: "reshape_infer [] [C * nb_bins um] x = Inr x1"
    and s1: "shape x1 = [F * B, C * nb_bins um]"
    using reshape_infer_ok [of "[]" "[C * nb_bins um]" x "F * B"]
    by (auto simp: layers_fit_def)
  from fit s1 obtain x2 where x2: "Linear_forward (fc1 um) x1 = Inr x2"
    and s2: "shape x2 = [F * B, ?H]"
    using Linear_forward_ok [of x1 "[F * B]" "fc1 um"] by (auto simp: layers_fit_def)
  from fit s2 obtain x3 where x3: "BatchNorm1d_forward (bn1 um) x2 = Inr x3"
    and s3: "shape x3 = [F * B, ?H]"
    using BatchNorm1d_forward_ok [of x2 "F * B" "bn1 um"] by (auto simp: layers_fit_def)
  from s3 obtain x4 where x4: "reshape [F, B, ?H] x3 = Inr x4" and s4: "shape x4 = [F, B, ?H]"
    using reshape_ok [of "[F, B, ?H]" x3] by (auto simp: numel_def)
  have s5: "shape (map_t tanh x4) = [F, B, ?H]" using s4 by simp
  from fit s5 obtain x6 where x6: "LSTM_forward (lstm um) (map_t tanh x4) = Inr x6"
    and s6: "shape x6 = [F, B, ?D]"
    using LSTM_forward_ok [of "map_t tanh x4" F B "lstm um"] by (auto simp: layers_fit_def)
  from s5 s6 obtain x7 where x7: "cat_last (map_t tanh x4) x6 = Inr x7"
    and s7: "shape x7 = [F, B, ?H + ?D]"
    using cat_last_ok [of "map_t tanh x4" "[F, B]" ?H x6 ?D] by auto
  have "numel x7 = prod_list [] * prod_list [?H + ?D] * (F * B)"
    using s7 by (simp add: numel_def)
  with fit s7 obtain x8 where x8: "reshape_infer [] [last (shape x7)] x7 = Inr x8"
    and s8: "shape x8 = [F * B, ?H + ?D]"
    using reshape_infer_ok [of "[]" "[?H + ?D]" x7 "F * B"]
    by (auto simp: layers_fit_def)
  from fit s8 obtain x9 where x9: "Linear_forward (fc2 um) x8 = Inr x9"
    and s9: "shape x9 = [F * B, out_features (fc2 um)]"
    using Linear_forward_ok [of x8 "[F * B]" "fc2 um"] by (auto simp: layers_fit_def)
  from fit s9 obtain x10 where x10: "BatchNorm1d_forward (bn2 um) x9 = Inr x10"
    and s10: "shape x10 = [F * B, out_features (fc2 um)]"
    using BatchNorm1d_forward_ok [of x9 "F * B" "bn2 um"] by (auto simp: layers_fit_def)
  have s11: "shape (relu x10) = [F * B, in_features (fc3 um)]"
    using s10 fit by (simp add: layers_fit_def)
  from s11 obtain x12 where x12: "Linear_forward (fc3 um) (relu x10) = Inr x12"
    and s12: "shape x12 = [F * B, out_features (fc3 um)]"
    using Linear_forward_ok [of "relu x10" "[F * B]" "fc3 um"] by auto
  from fit s12 obtain x13 where x13: "BatchNorm1d_forward (bn3 um) x12 = Inr x13"
    and s13: "shape x13 = [F * B, C * nb_output_bins um]"
    using BatchNorm1d_forward_ok [of x12 "F * B" "bn3 um"] by (auto simp: layers_fit_def)
  from s13 obtain x14 where x14: "reshape [F, B, C, nb_output_bins um] x13 = Inr x14"
    and s14: "shape x14 = [F, B, C, nb_output_bins um]"
    using reshape_ok [of "[F, B, C, nb_output_bins um]" x13] by (auto simp: numel_def)
  from fit s14 obtain x15 where x15: "inplace_val (*) x14 (output_scale um) = Inr x15"
    and s15: "shape x15 = [F, B, C, nb_output_bins um]"
    using inplace_val_ok [of "output_scale um" x14 "(*)"] by (auto simp: layers_fit_def)
  from fit s15 obtain x16 where x16: "inplace_val (+) x15 (output_mean um) = Inr x16"
    using inplace_val_ok [of "output_mean um" x15 "(+)"] by (auto simp: layers_fit_def)
  show ?thesis
    unfolding network_def
    by (simp add: x1 x2 x3 x4 x6 x7 x8 x9 x10 x12 x13 x14 x15 x16)
qed

lemma torch_stft_ok:
  assumes "shape x = [n, len]" "nfft \<noteq> 0" "hop \<noteq> 0" "shape win = [nfft]"
    and "if cen then nfft div 2 < len else nfft \<le> len"
  shows "\<exists>y. torch_stft L x nfft hop win cen = Inr y"
  using assms by (auto simp: torch_stft_def Let_def split: if_splits)

lemma STFT_forward_ok:
  assumes sx: "shape x = [B, C, T]" and nz: "B * C \<noteq> 0"
    and st: "n_fft st \<noteq> 0" "n_hop st \<noteq> 0" "shape (window st) = [n_fft st]"
      "if center st then n_fft st div 2 < T else n_fft st \<le> T"
  shows "\<exists>y. STFT_forward L st x = Inr y"
proof -
  have "numel x = prod_list [B * C] * prod_list [] * T"
    using sx by (simp add: numel_def)
  with nz obtain x1 where x1: "reshape_infer [B * C] [] x = Inr x1"
    and s1: "shape x1 = [B * C, T]"
    using reshape_infer_ok [of "[B * C]" "[]" x T] by auto
  from torch_stft_ok [OF s1 st] obtain s where
    s: "torch_stft L x1 (n_fft st) (n_hop st) (window st) (center st) = Inr s"
    by blast
  let ?F = "nb_frames_of (n_fft st) (n_hop st) (center st) T"
  from torch_stft_shape [OF s s1]
  have ss: "shape s = [B * C, n_fft st div 2 + 1, ?F, 2]" .
  have "numel s = prod_list [B, C, n_fft st div 2 + 1] * prod_list [2] * ?F"
    using ss by (simp add: numel_def algebra_simps)
  moreover have "prod_list [B, C, n_fft st div 2 + 1] * prod_list [2] \<noteq> 0"
    using nz by simp
  ultimately obtain y where "reshape_infer [B, C, n_fft st div 2 + 1] [2] s = Inr y"
    using reshape_infer_ok [of "[B, C, n_fft st div 2 + 1]" "[2]" s ?F] by blast
  then show ?thesis
    using x1 s sx by (simp add: STFT_forward_def)
qed

lemma Spectrogram_forward_ok:
  assumes "shape s = [B, C, K, F, 2]"
  shows "\<exists>y. Spectrogram_forward sp s = Inr y"
proof -
  from transpose_2_3 [OF assms] obtain s1 where
    s1: "transpose' 2 3 s = Inr s1" and h1: "shape s1 = [B, C, F, K, 2]" by blast
  from sum_last_ok [of "map_t (\<lambda>v. v * v) s1"] h1 obtain s2 where
    s2: "sum_last (map_t (\<lambda>v. v * v) s1) = Inr s2" and h2: "shape s2 = [B, C, F, K]"
    by auto
  let ?p = "map_t (\<lambda>v. torch_pow v (power' sp / 2)) s2"
  have "\<exists>s4. (if mono' sp then mean_dim1_keep ?p else Inr ?p) = Inr s4
         \<and> shape s4 = [B, if mono' sp then 1 else C, F, K]"
    using mean_dim1_keep_ok [of ?p] h2 by auto
  then obtain s4 where
    s4: "(if mono' sp then mean_dim1_keep ?p else Inr ?p) = Inr s4" and
    h4: "shape s4 = [B, if mono' sp then 1 else C, F, K]" by blast
  from permute_2013 [OF h4] obtain y where "permute [2, 0, 1, 3] s4 = Inr y" by blast
  then show ?thesis
    using s1 s2 s4 unfolding Spectrogram_forward_def by (simp del: if_split cong: if_cong)
qed

lemma inplace_ok:
  "expandable (shape other) (vshape v) \<Longrightarrow> \<exists>h'. inplace f h v other = Inr h'"
  by (simp add: inplace_def expand_def)

lemma transform_forward_Sequential_ok:
  assumes "transform um = Sequential" and "vshape x = [B, C, T]" and "B * C \<noteq> 0"
    and "n_fft (stft um) \<noteq> 0" "n_hop (stft um) \<noteq> 0"
      "shape (window (stft um)) = [n_fft (stft um)]"
      "if center (stft um) then n_fft (stft um) div 2 < T else n_fft (stft um) \<le> T"
  shows "\<exists>xv h1. transform_forward L um x h = Inr (xv, h1)"
proof -
  have sx: "shape (deref h x) = [B, C, T]" using assms(2) by simp
  from STFT_forward_ok [OF sx assms(3-7)] obtain s where
    s: "STFT_forward L (stft um) (deref h x) = Inr s" by blast
  from Spectrogram_forward_ok [OF STFT_forward_shape [OF s sx]] obtain m where
    m: "Spectrogram_forward (spec um) s = Inr m" by blast
  show ?thesis
    using assms(1) s m by (simp add: transform_forward_def alloc_def)
qed

lemma vshape_narrow_last4:
  "vshape v = [a, b, c, d] \<Longrightarrow> vshape (narrow_last n v) = [a, b, c, min n d]"
  by (simp add: narrow_last_def)

lemma inplace_keeps_view_shape:
  "inplace f h v other = Inr h' \<Longrightarrow> shape (deref h' v) = vshape v"
  by simp

lemma forward_tail_ok:
  assumes v: "vshape xv = [F, B, C, K]"
    and nb: "nb_bins um \<le> K"
    and out: "nb_output_bins um = K"
    and im: "shape (input_mean um) = [nb_bins um]"
    and isc: "shape (input_scale um) = [nb_bins um]"
    and fit: "layers_fit um C"
  shows "\<exists>y h'. (case vshape xv of
       [nb_frames, nb_samples, nb_channels, nb_bins_in] \<Rightarrow>
         (let mix = deref h xv;
              x = narrow_last (nb_bins um) xv
          in ebind (inplace (+) h x (input_mean um)) (\<lambda>h.
             ebind (inplace (*) h x (input_scale um)) (\<lambda>h.
             ebind (network um nb_frames nb_samples nb_channels (deref h x)) (\<lambda>x.
             ebind (mul (relu x) mix) (\<lambda>x.
             Inr (x, h))))))
     | _ \<Rightarrow> Inl ValueError) = Inr (y, h')"
proof -
  let ?x = "narrow_last (nb_bins um) xv"
  have vx: "vshape ?x = [F, B, C, nb_bins um]"
    using vshape_narrow_last4 [OF v, of "nb_bins um"] nb by (simp add: min_def)
  have e1: "expandable (shape (input_mean um)) (vshape ?x)"
    using vx im by simp
  have e2: "expandable (shape (input_scale um)) (vshape ?x)"
    using vx isc by simp
  from inplace_ok [OF e1] obtain h1 where h1: "inplace (+) h ?x (input_mean um) = Inr h1"
    by blast
  from inplace_ok [OF e2] obtain h2 where h2: "inplace (*) h1 ?x (input_scale um) = Inr h2"
    by blast
  have "shape (deref h2 ?x) = [F, B, C, nb_bins um]" using vx by simp
  from network_ok [OF fit this] obtain g where g: "network um F B C (deref h2 ?x) = Inr g"
    by blast
  from network_shape [OF g] have "shape (relu g) = shape (deref h xv)"
    using v out by simp
  from mul_same_shape [OF this] obtain y where y: "mul (relu g) (deref h xv) = Inr y"
    by blast
  show ?thesis
    using v h1 h2 g y by (simp add: Let_def)
qed

lemma OpenUnmix_forward_Sequential_ok:
  assumes "transform um = Sequential" and "vshape x = [B, C, T]" and "B * C \<noteq> 0"
    and "n_fft (stft um) \<noteq> 0" "n_hop (stft um) \<noteq> 0"
      "shape (window (stft um)) = [n_fft (stft um)]"
      "if center (stft um) then n_fft (stft um) div 2 < T else n_fft (stft um) \<le> T"
    and "nb_bins um \<le> n_fft (stft um) div 2 + 1"
    and "nb_output_bins um = n_fft (stft um) div 2 + 1"
    and "shape (input_mean um) = [nb_bins um]"
    and "shape (input_scale um) = [nb_bins um]"
    and "layers_fit um (if mono' (spec um) then 1 else C)"
  shows "\<exists>y h'. OpenUnmix_forward L um x h = Inr (y, h')"
proof -
  from transform_forward_Sequential_ok [OF assms(1-7)] obtain xv h1 where
    t: "transform_forward L um x h = Inr (xv, h1)" by blast
  note v = transform_forward_Sequential_shape [OF t assms(1,2)]
  from forward_tail_ok [OF v assms(8,9,10,11,12)]
  show ?thesis
    unfolding OpenUnmix_forward_def by (simp add: t)
qed

lemma OpenUnmix_forward_NoOp_ok:
  assumes "transform um = NoOp" and "vshape x = [F, B, C, K]"
    and "nb_bins um \<le> K" and "nb_output_bins um = K"
    and "shape (input_mean um) = [nb_bins um]"
    and "shape (input_scale um) = [nb_bins um]"
    and "layers_fit um C"
  shows "\<exists>y h'. OpenUnmix_forward L um x h = Inr (y, h')"
proof -
  have t: "transform_forward L um x h = Inr (x, h)"
    using assms(1) by (simp add: transform_forward_def NoOp_forward_def)
  from forward_tail_ok [OF assms(2-7)]
  show ?thesis
    unfolding OpenUnmix_forward_def by (simp add: t)
qed

section \<open>The estimate is never negative\<close>











lemma OpenUnmix_init_fields:
  fixes W nfft nhop isp hidden nbch sr nl im isc mb uni pw
  defines "um \<equiv> OpenUnmix_init W nfft nhop isp hidden nbch sr nl im isc mb uni pw"
  shows "nb_output_bins um = nfft div 2 + 1"
    and "n_fft (stft um) = nfft" and "n_hop (stft um) = nhop" and "center (stft um)"
    and "shape (window (stft um)) = [nfft]"
    and "mono' (spec um) = (nbch = 1)"
    and "transform um = (if isp then NoOp else Sequential)"
    and "nb_bins um = (case mb of None \<Rightarrow> nfft div 2 + 1
                       | Some b \<Rightarrow> if b \<noteq> 0 then b else nfft div 2 + 1)"
    and "im = None \<Longrightarrow> shape (input_mean um) = [nb_bins um]"
    and "isc = None \<Longrightarrow> shape (input_scale um) = [nb_bins um]"
    and "im = Some m \<Longrightarrow> shape (input_mean um) = [min (length m) (nb_bins um)]"
    and "isc = Some sc \<Longrightarrow> shape (input_scale um) = [min (length sc) (nb_bins um)]"
  unfolding um_def
  by (simp_all add: OpenUnmix_init_def Let_def STFT_init_def hann_window_def split: option.splits)

lemma OpenUnmix_init_fit:
  assumes "0 < nbch" "0 < hidden" "uni \<or> even hidden"
  shows "layers_fit (OpenUnmix_init W nfft nhop isp hidden nbch sr nl im isc mb uni pw) nbch"
  using assms
  by (auto simp: layers_fit_def OpenUnmix_init_def Let_def split: option.splits)

section \<open>The shape of the estimate for a constructed estimator\<close>

lemma OpenUnmix_init_forward_ok:
  fixes W nfft nhop hidden nbch sr nl mb uni pw
  defines "um \<equiv> OpenUnmix_init W nfft nhop False hidden nbch sr nl None None mb uni pw"
  assumes "vshape x = [B, C, T]" "0 < B" "0 < C" "0 < nfft" "0 < nhop" "nfft div 2 < T"
    and "nbch = 1 \<or> C = nbch" "0 < hidden" "uni \<or> even hidden"
    and "case mb of None \<Rightarrow> True | Some b \<Rightarrow> b \<le> nfft div 2 + 1"
  shows "\<exists>y h'. OpenUnmix_forward L um x h = Inr (y, h')"
proof -
  have fit: "layers_fit um (if mono' (spec um) then 1 else C)"
    using OpenUnmix_init_fit [of nbch hidden uni W nfft nhop False sr nl None None mb pw] assms
    unfolding um_def by (auto simp: OpenUnmix_init_fields)
  have nb: "nb_bins um \<le> n_fft (stft um) div 2 + 1"
    using assms(11) unfolding um_def by (auto simp: OpenUnmix_init_fields split: option.splits)
  show ?thesis
    apply (rule OpenUnmix_forward_Sequential_ok [where B = B and C = C and T = T])
    using assms(2-7) nb fit unfolding um_def
    by (simp_all add: OpenUnmix_init_fields)
qed

text \<open>
  C9 (as amended). For a waveform of shape \<open>(B, C, T)\<close>, an estimator built by
  \<^verbatim>\<open>OpenUnmix.__init__\<close> for waveform input returns a magnitude of shape
  \<open>(frames, B, C', n_fft div 2 + 1)\<close>, where \<open>frames\<close> is a function of \<open>T\<close>, the window size,
  the hop and the centring only, and \<open>C'\<close> is 1 for an estimator built with one channel
  (it downmixes) and \<open>C\<close> otherwise; this holds for every \<^verbatim>\<open>max_bin\<close>.
\<close>

theorem OpenUnmix_init_forward_shape:
  assumes "OpenUnmix_forward L
             (OpenUnmix_init W nfft nhop False hidden nbch sr nl im isc mb uni pw) x h
           = Inr (y, h')"
    and "vshape x = [B, C, T]"
  shows "shape y = [nb_frames_of nfft nhop True T, B, if nbch = 1 then 1 else C, nfft div 2 + 1]"
  using OpenUnmix_forward_shape [OF assms(1) _ assms(2)]
  by (simp add: OpenUnmix_init_fields)

theorem OpenUnmix_init_forward_shape_witness:
  "\<exists>y h'. OpenUnmix_forward zero_externals small_unmix (arg_of (zeros [1, 2, 8]))
              (store_of (zeros [1, 2, 8])) = Inr (y, h')
          \<and> shape y = [9, 1, 2, 3]"
proof -
  have v: "vshape (arg_of (zeros [1, 2, 8])) = [1, 2, 8]" by (simp add: arg_of_def)
  obtain y h' where r: "OpenUnmix_forward zero_externals small_unmix (arg_of (zeros [1, 2, 8]))
              (store_of (zeros [1, 2, 8])) = Inr (y, h')"
    using OpenUnmix_init_forward_ok [OF v, where nfft = 4 and nhop = 1 and hidden = 2
        and nbch = 2 and mb = None and uni = False and L = zero_externals and W = zero_weights
        and sr = 44100 and nl = 1 and pw = 1 and h = "store_of (zeros [1, 2, 8])"]
    unfolding small_unmix_def by auto
  from OpenUnmix_init_forward_shape [OF r [unfolded small_unmix_def] v]
  have "shape y = [9, 1, 2, 3]" by (simp add: nb_frames_of_def)
  with r show ?thesis by blast
qed

text \<open>
  As the claim is worded, with the input's own channel count \<open>C\<close> in the shape, it fails
  for an estimator built with \<^verbatim>\<open>nb_channels=1\<close> on a two-channel waveform.
\<close>

theorem mono_estimator_drops_channels:
  "\<exists>y h'. OpenUnmix_forward zero_externals mono_unmix (arg_of (zeros [1, 2, 8]))
              (store_of (zeros [1, 2, 8])) = Inr (y, h')
          \<and> shape y = [9, 1, 1, 3] \<and> shape y \<noteq> [nb_frames_of 4 1 True 8, 1, 2, 4 div 2 + 1]"
proof -
  have v: "vshape (arg_of (zeros [1, 2, 8])) = [1, 2, 8]" by (simp add: arg_of_def)
  obtain y h' where r: "OpenUnmix_forward zero_externals mono_unmix (arg_of (zeros [1, 2, 8]))
              (store_of (zeros [1, 2, 8])) = Inr (y, h')"
    using OpenUnmix_init_forward_ok [OF v, where nfft = 4 and nhop = 1 and hidden = 2
        and nbch = 1 and mb = None and uni = False and L = zero_externals and W = zero_weights
        and sr = 44100 and nl = 1 and pw = 1 and h = "store_of (zeros [1, 2, 8])"]
    unfolding mono_unmix_def by auto
  from OpenUnmix_forward_shape [OF r _ v]
  have "shape y = [9, 1, 1, 3]"
    by (simp add: mono_unmix_def OpenUnmix_init_fields nb_frames_of_def)
  with r show ?thesis by (auto simp: nb_frames_of_def)
qed

section \<open>What the call does to its argument, and estimates on concrete inputs\<close>


lemma OpenUnmix_forward_NoOp_store:
  assumes r: "OpenUnmix_forward L um x h = Inr (y, h')" and n: "transform um = NoOp"
    and i: "in_range (vshape (narrow_last (nb_bins um) x)) i"
      "in_range (shape (cell h (base x))) i"
  shows "elem (cell h' (base x)) i =
         (elem (cell h (base x)) i + elem (input_mean um) (bidx (shape (input_mean um)) i))
         * elem (input_scale um) (bidx (shape (input_scale um)) i)"
proof -
  let ?v = "narrow_last (nb_bins um) x"
  from OpenUnmix_forward_D [OF r] n obtain h1 where
    h1: "inplace (+) h ?v (input_mean um) = Inr h1" and
    h2: "inplace (*) h1 ?v (input_scale um) = Inr h'"
    by (auto simp: transform_forward_def NoOp_forward_def)
  have b: "base ?v = base x" by (simp add: narrow_last_def)
  from h1 i b have e1: "elem (cell h1 (base x)) i =
      elem (cell h (base x)) i + elem (input_mean um) (bidx (shape (input_mean um)) i)"
    and s1: "shape (cell h1 (base x)) = shape (cell h (base x))"
    by (auto simp: inplace_def ebind_Inr_iff expand_def elem_mk split: if_splits)
  from h2 i b s1 have "elem (cell h' (base x)) i =
      elem (cell h1 (base x)) i * elem (input_scale um) (bidx (shape (input_scale um)) i)"
    by (auto simp: inplace_def ebind_Inr_iff expand_def elem_mk split: if_splits)
  with e1 show ?thesis by simp
qed

lemma spectrogram_unmix_fields:
  "transform spectrogram_unmix = NoOp" "nb_bins spectrogram_unmix = 1"
  "nb_output_bins spectrogram_unmix = 2"
  "input_mean spectrogram_unmix = from_list [- 1]"
  "input_scale spectrogram_unmix = ones [1]"
  "bn_val (bn3 spectrogram_unmix) = (\<lambda>x i. 0)"
  by (simp_all add: spectrogram_unmix_def OpenUnmix_init_def Let_def zero_weights_def)


lemma spectrogram_unmix_fit: "layers_fit spectrogram_unmix (Suc 0)"
  using OpenUnmix_init_fit [of 1 2 False zero_weights 2 1 True 44100 1 "Some [1]" None "Some 1" 1]
  by (simp add: spectrogram_unmix_def)

lemma spectrogram_unmix_ok:
  "shape t = [1, 1, 1, 2] \<Longrightarrow>
   \<exists>y h'. OpenUnmix_forward L spectrogram_unmix (arg_of t) (store_of t) = Inr (y, h')"
  by (rule OpenUnmix_forward_NoOp_ok [where F = 1 and B = 1 and C = 1 and K = 2])
     (simp_all add: spectrogram_unmix_fields spectrogram_unmix_fit arg_of_def)

lemma OpenUnmix_forward_Sequential_frame:
  assumes r: "OpenUnmix_forward L um x h = Inr (y, h')" and n: "transform um = Sequential"
    and a: "a < next_free h"
  shows "cell h' a = cell h a"
proof -
  from OpenUnmix_forward_D [OF r] obtain xv h0 h1 where
    t: "transform_forward L um x h = Inr (xv, h0)" and
    h1: "inplace (+) h0 (narrow_last (nb_bins um) xv) (input_mean um) = Inr h1" and
    h2: "inplace (*) h1 (narrow_last (nb_bins um) xv) (input_scale um) = Inr h'"
    by blast
  from t n obtain m where "alloc h m = (xv, h0)"
    by (auto simp: transform_forward_def ebind_Inr_iff)
  then have b: "base xv = next_free h" and c0: "cell h0 a = cell h a"
    using a by (auto simp: alloc_def)
  have bn: "base (narrow_last (nb_bins um) xv) = next_free h"
    using b by (simp add: narrow_last_def)
  from h1 bn a have "cell h1 a = cell h0 a"
    by (auto simp: inplace_def ebind_Inr_iff)
  moreover from h2 bn a have "cell h' a = cell h1 a"
    by (auto simp: inplace_def ebind_Inr_iff)
  ultimately show ?thesis using c0 by simp
qed

text \<open>
  C5. The claim holds on the waveform path (\<open>OpenUnmix_forward_Sequential_frame\<close>: every
  tensor stored before the call is the same after it). With \<^verbatim>\<open>input_is_spectrogram=True\<close>
  the code breaks it: \<open>NoOp\<close> returns the caller's tensor, the crop is a view of it, and
  the two in-place operations write \<open>(x + input_mean) * input_scale\<close> into the caller's
  data (\<open>OpenUnmix_forward_NoOp_store\<close>). Here the caller's entry 1 has become 0.
\<close>

theorem spectrogram_input_is_overwritten:
  "\<exists>y h'. OpenUnmix_forward zero_externals spectrogram_unmix
             (arg_of (ones [1, 1, 1, 2])) (store_of (ones [1, 1, 1, 2])) = Inr (y, h')
     \<and> elem (cell (store_of (ones [1, 1, 1, 2])) 0) [0, 0, 0, 0] = 1
     \<and> elem (cell h' 0) [0, 0, 0, 0] = 0"
proof -
  let ?t = "ones [1, 1, 1, 2]"
  obtain y h' where r: "OpenUnmix_forward zero_externals spectrogram_unmix
             (arg_of ?t) (store_of ?t) = Inr (y, h')"
    using spectrogram_unmix_ok [of ?t zero_externals] by auto
  have "elem (cell h' (base (arg_of ?t))) [0, 0, 0, 0] =
         (elem (cell (store_of ?t) (base (arg_of ?t))) [0, 0, 0, 0]
          + elem (input_mean spectrogram_unmix)
              (bidx (shape (input_mean spectrogram_unmix)) [0, 0, 0, 0]))
         * elem (input_scale spectrogram_unmix)
              (bidx (shape (input_scale spectrogram_unmix)) [0, 0, 0, 0])"
    by (rule OpenUnmix_forward_NoOp_store [OF r])
       (simp_all add: spectrogram_unmix_fields arg_of_def store_of_def narrow_last_def)
  then have "elem (cell h' 0) [0, 0, 0, 0] = 0"
    by (simp add: spectrogram_unmix_fields arg_of_def store_of_def ones_def from_list_def
        elem_mk bidx_def)
  moreover have "elem (cell (store_of ?t) 0) [0, 0, 0, 0] = 1"
    by (simp add: store_of_def ones_def elem_mk)
  ultimately show ?thesis using r by blast
qed




section \<open>The refinement loop\<close>


lemma select_ok:
  "shape x = n0 # n1 # rest \<Longrightarrow> sample < n0 \<Longrightarrow> list_all (\<lambda>f. f < n1) t \<Longrightarrow>
   \<exists>y. select x sample t = Inr y \<and> shape y = length t # rest"
  by (simp add: select_def)

lemma index_put_ok:
  "shape x = n0 # n1 # rest \<Longrightarrow> sample < n0 \<Longrightarrow> list_all (\<lambda>f. f < n1) t \<Longrightarrow>
   shape r = length t # rest \<Longrightarrow>
   \<exists>y. index_put x sample t r = Inr y \<and> shape y = shape x"
  by (simp add: index_put_def expand_def)

lemma index_put_shape: "index_put x sample t r = Inr y \<Longrightarrow> shape y = shape x"
  by (auto simp: index_put_def ebind_Inr_iff split: list.splits if_splits)

lemma list_all_upt_less: "e \<le> n \<Longrightarrow> list_all (\<lambda>f. f < n) [p..<e]"
  by (simp add: list_all_iff)

lemma refine_windows_ok:
  assumes "wiener_shape_contract L"
    and "shape sp = [B, F, K, C', S]" and "shape mx = [B, F, K, C, 2]"
    and "shape ts = [B, F, K, C, 2, S + (if residual sep = None then 0 else 1)]"
    and "sample < B" and "0 < bsize"
  shows "\<exists>ts' cs'. refine_windows L sep sp mx F bsize sample pos (ts, cs) = Inr (ts', cs')
           \<and> shape ts' = shape ts"
  using assms
proof (induction L sep sp mx F bsize sample pos "(ts, cs)" arbitrary: ts cs
       rule: refine_windows.induct)
  case (1 L sep sp mx F bsize sample pos ts cs)
  show ?case
  proof (cases "pos < F")
    case False
    then show ?thesis by simp
  next
    case True
    let ?e = "nat (min (int F) (int pos + bsize))"
    let ?t = "[pos..<?e]"
    let ?c = "\<lparr>call_sample = sample, call_frames = ?t, call_iterations = niter sep,
               call_use_softmask = False, call_residual = residual sep\<rparr>"
    have e: "pos < ?e" "?e \<le> F" using True "1.prems"(6) by auto
    have ar: "arange pos (min (int F) (int pos + bsize)) = Inr ?t"
      using True "1.prems"(6) by (auto simp: arange_def)
    have tne: "?t \<noteq> []" using e by simp
    have la: "list_all (\<lambda>f. f < F) ?t" using e by (simp add: list_all_upt_less)
    from select_ok [OF "1.prems"(2) "1.prems"(5) la] obtain v where
      v: "select sp sample ?t = Inr v" and sv: "shape v = [length ?t, K, C', S]" by auto
    from select_ok [OF "1.prems"(3) "1.prems"(5) la] obtain x where
      x: "select mx sample ?t = Inr x" and sx: "shape x = [length ?t, K, C, 2]" by auto
    let ?r = "wiener L v x (niter sep) False (residual sep)"
    have sr: "shape ?r = length ?t # [K, C, 2, S + (if residual sep = None then 0 else 1)]"
      using "1.prems"(1) sv sx by (simp add: wiener_shape_contract_def)
    from index_put_ok [OF "1.prems"(4) "1.prems"(5) la sr] obtain ts1 where
      p: "index_put ts sample ?t ?r = Inr ts1" and s1: "shape ts1 = shape ts" by auto
    from "1.hyps" [OF True ar tne v x p "1.prems"(1,2,3) _ "1.prems"(5,6)] s1 "1.prems"(4)
    obtain ts' cs' where
      "refine_windows L sep sp mx F bsize sample (last ?t + 1) (ts1, cs @ [?c]) = Inr (ts', cs')"
      "shape ts' = shape ts"
      by auto
    then show ?thesis
      using True ar tne v x p
      by (simp add: refine_windows.simps [of L sep sp mx F bsize sample pos]
          del: refine_windows.simps)
  qed
qed

lemma refine_samples_Cons:
  "refine_samples L sep sp mx F (sample # rest) st =
     ebind (refine_windows L sep sp mx F (window_size sep F) sample 0 st)
       (\<lambda>st. refine_samples L sep sp mx F rest st)"
  by (simp add: window_size_def Let_def)

lemma window_size_pos:
  "0 < F \<Longrightarrow> (case batch_size sep of None \<Rightarrow> True | Some b \<Rightarrow> 0 \<le> b) \<Longrightarrow>
   0 < window_size sep F"
  by (auto simp: window_size_def split: option.splits)

lemma refine_samples_ok:
  assumes "wiener_shape_contract L"
    and "shape sp = [B, F, K, C', S]" and "shape mx = [B, F, K, C, 2]"
    and "shape ts = [B, F, K, C, 2, S + (if residual sep = None then 0 else 1)]"
    and "list_all (\<lambda>s. s < B) samples" and "0 < window_size sep F"
  shows "\<exists>ts' cs'. refine_samples L sep sp mx F samples (ts, cs) = Inr (ts', cs')
           \<and> shape ts' = shape ts"
  using assms
proof (induction samples arbitrary: ts cs)
  case Nil
  then show ?case by simp
next
  case (Cons sample rest)
  from Cons.prems(5) have sb: "sample < B" and rb: "list_all (\<lambda>s. s < B) rest" by simp_all
  from refine_windows_ok [OF Cons.prems(1,2,3,4) sb Cons.prems(6), of 0 cs]
  obtain ts1 cs1 where
    w: "refine_windows L sep sp mx F (window_size sep F) sample 0 (ts, cs) = Inr (ts1, cs1)"
    and s1: "shape ts1 = shape ts" by blast
  from Cons.IH [OF Cons.prems(1,2,3) _ rb Cons.prems(6), of ts1 cs1] s1 Cons.prems(4)
  obtain ts' cs' where "refine_samples L sep sp mx F rest (ts1, cs1) = Inr (ts', cs')"
    "shape ts' = shape ts" by auto
  then show ?case
    using w by (simp add: refine_samples_Cons del: refine_samples.simps)
qed



section \<open>Separator.forward: when it returns, and what\<close>

lemma case_list_Cons_Inr:
  "(case s of [] \<Rightarrow> Inl e | a # r \<Rightarrow> f a r) = Inr y \<longleftrightarrow> (\<exists>a r. s = a # r \<and> f a r = Inr y)"
  by (cases s) auto

lemma case_opts_Inr:
  "(case (p, q) of (Some a, Some b) \<Rightarrow> f a b | _ \<Rightarrow> Inl e) = Inr y \<longleftrightarrow>
   (\<exists>a b. p = Some a \<and> q = Some b \<and> f a b = Inr y)"
  by (cases p; cases q) auto

lemma case_option_Inr:
  "(case a of None \<Rightarrow> Inl e | Some x \<Rightarrow> f x) = Inr y \<longleftrightarrow> (\<exists>x. a = Some x \<and> f x = Inr y)"
  by (cases a) auto

lemma if_Inl_Inr: "(if c then Inl e else m) = Inr y \<longleftrightarrow> \<not> c \<and> m = Inr y"
  by simp

lemma Separator_forward_log_D:
  assumes "Separator_forward_log L sep audio h0 = Inr (e, h', calls)"
  shows "\<exists>nb_samples rest sp0 um h sp mx0 mx ts y.
     vshape audio = nb_samples # rest \<and>
     run_targets L sep audio (nb_targets sep) 0 (map fst (targets sep)) (None, None, h0)
       = Inr (Some sp0, Some um, h') \<and>
     permute [1, 0, 3, 2, 4] sp0 = Inr sp \<and>
     STFT_forward L (stft um) (deref h' audio) = Inr mx0 \<and>
     permute [0, 3, 2, 1, 4] mx0 = Inr mx \<and>
     \<not> (length (case residual sep of None \<Rightarrow> map fst (targets sep)
                  | Some r \<Rightarrow> map fst (targets sep) @ [r]) = 1 \<and> niter sep > 0) \<and>
     refine_samples L sep sp mx (shape sp ! 1) [0..<nb_samples]
       (zeros (shape mx @ [case residual sep of None \<Rightarrow> nb_targets sep
                           | Some r \<Rightarrow> nb_targets sep + 1]), []) = Inr (ts, calls) \<and>
     e = Tensor y \<and>
     ebind (permute [0, 5, 3, 2, 1, 4] ts) (\<lambda>ts.
       istft L ts (n_fft (stft um)) (n_hop (stft um)) (window (stft um))
         (center (stft um)) (last (vshape audio))) = Inr y"
  using assms unfolding Separator_forward_log_def Let_def
  by (simp add: ebind_Inr_iff case_list_Cons_Inr case_option_Inr if_Inl_Inr split_paired_Ex)
     blast

lemma estimator_fits_forward:
  assumes f: "estimator_fits N H cen mo C u" and a: "audio_fits N H cen B C T"
    and v: "vshape x = [B, C, T]"
  shows "\<exists>y h'. OpenUnmix_forward L u x h = Inr (y, h')
           \<and> shape y = [nb_frames_of N H cen T, B, if mo then 1 else C, N div 2 + 1]"
proof -
  have "\<exists>y h'. OpenUnmix_forward L u x h = Inr (y, h')"
    apply (rule OpenUnmix_forward_Sequential_ok [where B = B and C = C and T = T])
    using f a v by (simp_all add: estimator_fits_def audio_fits_def)
  then obtain y h' where r: "OpenUnmix_forward L u x h = Inr (y, h')" by blast
  have "shape y = [nb_frames_of N H cen T, B, if mo then 1 else C, N div 2 + 1]"
    using OpenUnmix_forward_shape [OF r _ v] f by (simp add: estimator_fits_def)
  with r show ?thesis by blast
qed

lemma assign_last_ok:
  "shape x = s @ [n] \<Longrightarrow> j < n \<Longrightarrow> shape src = s \<Longrightarrow>
   \<exists>y. assign_last x j src = Inr y \<and> shape y = shape x"
  by (simp add: assign_last_def expand_def)

lemma run_targets_ok:
  assumes names: "list_all (\<lambda>name. case map_of (targets sep) name of None \<Rightarrow> False
                    | Some u \<Rightarrow> estimator_fits N H cen mo C u) names"
    and a: "audio_fits N H cen B C T" and v: "vshape audio = [B, C, T]"
    and j: "j + length names \<le> nbs"
    and st: "case sp of None \<Rightarrow> True
             | Some s \<Rightarrow> shape s = [nb_frames_of N H cen T, B, if mo then 1 else C,
                                      N div 2 + 1, nbs]"
    and ne: "names \<noteq> []"
  shows "\<exists>s u h'. run_targets L sep audio nbs j names (sp, um, h) = Inr (Some s, Some u, h')
           \<and> shape s = [nb_frames_of N H cen T, B, if mo then 1 else C, N div 2 + 1, nbs]
           \<and> estimator_fits N H cen mo C u"
  using names j st ne
proof (induction names arbitrary: j sp um h)
  case Nil
  then show ?case by simp
next
  case (Cons name rest)
  let ?S = "[nb_frames_of N H cen T, B, if mo then 1 else C, N div 2 + 1]"
  from Cons.prems(1) obtain u where
    m: "map_of (targets sep) name = Some u" and f: "estimator_fits N H cen mo C u"
    and rest: "list_all (\<lambda>name. case map_of (targets sep) name of None \<Rightarrow> False
                    | Some u \<Rightarrow> estimator_fits N H cen mo C u) rest"
    by (auto split: option.splits)
  from estimator_fits_forward [OF f a v, of L h] obtain y h1 where
    y: "OpenUnmix_forward L u audio h = Inr (y, h1)" and sy: "shape y = ?S" by blast
  let ?sp = "case sp of None \<Rightarrow> zeros (shape y @ [nbs]) | Some sp \<Rightarrow> sp"
  have ssp: "shape ?sp = ?S @ [nbs]"
    using Cons.prems(3) sy by (auto split: option.splits)
  from Cons.prems(2) have jn: "j < nbs" by simp
  from assign_last_ok [OF ssp jn sy] obtain s1 where
    s1: "assign_last ?sp j y = Inr s1" and ss1: "shape s1 = ?S @ [nbs]"
    using ssp by auto
  have step: "run_targets L sep audio nbs j (name # rest) (sp, um, h) =
              run_targets L sep audio nbs (Suc j) rest (Some s1, Some u, h1)"
    using m y s1 by simp
  show ?case
  proof (cases "rest = []")
    case True
    with step ss1 f show ?thesis by simp
  next
    case False
    from Cons.IH [OF rest _ _ False, of "Suc j" "Some s1" "Some u" h1] Cons.prems(2) ss1
    show ?thesis using step by simp
  qed
qed

lemma istft_ok:
  assumes "shape m = [B, S, C, N div 2 + 1, F, 2]" and "0 < B" "0 < S" "0 < C" "0 < F"
    and "0 < H" "H \<le> N" "shape win = [N]"
  shows "\<exists>y. istft L m N H win cen len = Inr y \<and> shape y = [B, S, C, len]"
  using assms by (simp add: istft_def Let_def numel_def)

lemma nb_frames_of_pos: "0 < nb_frames_of N H cen T"
  by (simp add: nb_frames_of_def)

lemma Separator_forward_log_ok:
  assumes sf: "sep_fits N H cen mo C sep" and a: "audio_fits N H cen B C T"
    and v: "vshape audio = [B, C, T]" and w: "wiener_shape_contract L"
    and ok: "\<not> (length (targets sep) + residual_count sep = 1 \<and> 0 < niter sep)"
  shows "\<exists>y h' calls. Separator_forward_log L sep audio h = Inr (Tensor y, h', calls)
           \<and> shape y = [B, nb_targets sep + residual_count sep, C, T]"
proof -
  let ?F = "nb_frames_of N H cen T"
  let ?K = "N div 2 + 1"
  let ?Cm = "if mo then 1 else C"
  let ?n = "nb_targets sep"
  let ?n' = "case residual sep of None \<Rightarrow> ?n | Some r \<Rightarrow> ?n + 1"
  from sf have names: "list_all (\<lambda>name. case map_of (targets sep) name of None \<Rightarrow> False
                | Some u \<Rightarrow> estimator_fits N H cen mo C u) (map fst (targets sep))"
    and ne: "map fst (targets sep) \<noteq> []" and nt: "?n = length (targets sep)"
    and hn: "H \<le> N" and bs: "case batch_size sep of None \<Rightarrow> True | Some b \<Rightarrow> 0 \<le> b"
    by (simp_all add: sep_fits_def)
  from run_targets_ok [OF names a v _ _ ne, of 0 ?n None L None h] nt
  obtain s0 u h' where
    rt: "run_targets L sep audio ?n 0 (map fst (targets sep)) (None, None, h)
          = Inr (Some s0, Some u, h')" and
    ss0: "shape s0 = [?F, B, ?Cm, ?K, ?n]" and fu: "estimator_fits N H cen mo C u"
    by auto
  from permute_10324 [OF ss0] obtain sp where
    sp: "permute [1, 0, 3, 2, 4] s0 = Inr sp" and ssp: "shape sp = [B, ?F, ?K, ?Cm, ?n]"
    by blast
  have sa: "shape (deref h' audio) = [B, C, T]" using v by simp
  have "\<exists>y. STFT_forward L (stft u) (deref h' audio) = Inr y"
    apply (rule STFT_forward_ok [OF sa])
    using a fu by (simp_all add: audio_fits_def estimator_fits_def)
  then obtain mx0 where mx0: "STFT_forward L (stft u) (deref h' audio) = Inr mx0" by blast
  from STFT_forward_shape [OF mx0 sa] fu
  have smx0: "shape mx0 = [B, C, ?K, ?F, 2]" by (simp add: estimator_fits_def)
  from permute_03214 [OF smx0] obtain mx where
    mx: "permute [0, 3, 2, 1, 4] mx0 = Inr mx" and smx: "shape mx = [B, ?F, ?K, C, 2]"
    by blast
  have n': "?n' = ?n + (if residual sep = None then 0 else 1)"
    by (simp split: option.splits)
  have sz: "shape (zeros (shape mx @ [?n'])) =
            [B, ?F, ?K, C, 2, ?n + (if residual sep = None then 0 else 1)]"
    using smx n' by simp
  have ws: "0 < window_size sep ?F"
    using window_size_pos [OF nb_frames_of_pos bs] .
  from refine_samples_ok [OF w ssp smx sz _ ws, of "[0..<B]" "[]"]
  obtain ts calls where
    rs: "refine_samples L sep sp mx ?F [0..<B] (zeros (shape mx @ [?n']), []) = Inr (ts, calls)"
    and sts: "shape ts = [B, ?F, ?K, C, 2, ?n']"
    using sz n' by (auto simp: list_all_iff)
  from permute_053214 [OF sts] obtain tp where
    tp: "permute [0, 5, 3, 2, 1, 4] ts = Inr tp" and stp: "shape tp = [B, ?n', C, ?K, ?F, 2]"
    by blast
  have np: "0 < ?n'" using nt sf by (auto simp: sep_fits_def split: option.splits)
  have "\<exists>y. istft L tp (n_fft (stft u)) (n_hop (stft u)) (window (stft u))
              (center (stft u)) T = Inr y \<and> shape y = [B, ?n', C, T]"
    using istft_ok [OF _ _ np, of tp B C N ?F H "window (stft u)" L cen T] stp a fu hn
    by (simp add: audio_fits_def estimator_fits_def nb_frames_of_pos)
  then obtain y where
    y: "istft L tp (n_fft (stft u)) (n_hop (stft u)) (window (stft u))
              (center (stft u)) T = Inr y" and sy: "shape y = [B, ?n', C, T]" by blast
  have chk: "\<not> (length (case residual sep of None \<Rightarrow> map fst (targets sep)
                   | Some r \<Rightarrow> map fst (targets sep) @ [r]) = 1 \<and> niter sep > 0)"
    using ok by (auto simp: residual_count_def split: option.splits)
  have "Separator_forward_log L sep audio h = Inr (Tensor y, h', calls)"
    unfolding Separator_forward_log_def Let_def
    using v rt sp mx0 mx chk rs tp y ssp by simp
  moreover have "?n' = ?n + residual_count sep"
    by (simp add: residual_count_def split: option.splits)
  ultimately show ?thesis using sy by auto
qed

section \<open>Which calls raise the configuration error\<close>

named_theorems no_EM

lemma expand_no_EM [no_EM]: "expand d t \<noteq> Inl CannotUseEM"
  by (simp add: expand_def)
lemma mul_no_EM [no_EM]: "mul a b \<noteq> Inl CannotUseEM"
  by (simp add: mul_def split: option.splits)
lemma inplace_val_no_EM [no_EM]: "inplace_val f x other \<noteq> Inl CannotUseEM"
  by (simp add: inplace_val_def ebind_Inl_iff no_EM)
lemma reshape_no_EM [no_EM]: "reshape s t \<noteq> Inl CannotUseEM"
  by (simp add: reshape_def)
lemma reshape_infer_no_EM [no_EM]: "reshape_infer p q t \<noteq> Inl CannotUseEM"
  by (simp add: reshape_infer_def Let_def no_EM)
lemma permute_no_EM [no_EM]: "permute d t \<noteq> Inl CannotUseEM"
  by (simp add: permute_def)
lemma transpose_no_EM [no_EM]: "transpose' a b t \<noteq> Inl CannotUseEM"
  by (simp add: transpose'_def no_EM)
lemma sum_last_no_EM [no_EM]: "sum_last t \<noteq> Inl CannotUseEM"
  by (simp add: sum_last_def)
lemma mean_no_EM [no_EM]: "mean_dim1_keep t \<noteq> Inl CannotUseEM"
  by (simp add: mean_dim1_keep_def)
lemma cat_last_no_EM [no_EM]: "cat_last a b \<noteq> Inl CannotUseEM"
  by (simp add: cat_last_def)
lemma inplace_no_EM [no_EM]: "inplace f h v other \<noteq> Inl CannotUseEM"
  by (simp add: inplace_def ebind_Inl_iff no_EM)
lemma torch_stft_no_EM [no_EM]: "torch_stft L x n hp w c \<noteq> Inl CannotUseEM"
  by (simp add: torch_stft_def Let_def split: list.splits)
lemma istft_no_EM [no_EM]: "istft L m n hp w c len \<noteq> Inl CannotUseEM"
  by (simp add: istft_def Let_def)
lemma Linear_no_EM [no_EM]: "Linear_forward l x \<noteq> Inl CannotUseEM"
  by (simp add: Linear_forward_def)
lemma BatchNorm1d_no_EM [no_EM]: "BatchNorm1d_forward b x \<noteq> Inl CannotUseEM"
  by (simp add: BatchNorm1d_forward_def)
lemma LSTM_no_EM [no_EM]: "LSTM_forward l x \<noteq> Inl CannotUseEM"
  by (simp add: LSTM_forward_def split: list.splits)
lemma STFT_forward_no_EM [no_EM]: "STFT_forward L st x \<noteq> Inl CannotUseEM"
  by (simp add: STFT_forward_def ebind_Inl_iff no_EM split: list.splits)
lemma Spectrogram_forward_no_EM [no_EM]: "Spectrogram_forward sp s \<noteq> Inl CannotUseEM"
  by (simp add: Spectrogram_forward_def ebind_Inl_iff no_EM)
lemma transform_forward_no_EM [no_EM]: "transform_forward L um x h \<noteq> Inl CannotUseEM"
  by (simp add: transform_forward_def ebind_Inl_iff no_EM split: transform.splits)
lemma network_no_EM [no_EM]: "network um F B C x \<noteq> Inl CannotUseEM"
  by (simp add: network_def ebind_Inl_iff no_EM)
lemma OpenUnmix_forward_no_EM [no_EM]: "OpenUnmix_forward L um x h \<noteq> Inl CannotUseEM"
  by (simp add: OpenUnmix_forward_def ebind_Inl_iff no_EM Let_def split: list.splits prod.splits)
lemma assign_last_no_EM [no_EM]: "assign_last x j s \<noteq> Inl CannotUseEM"
  by (simp add: assign_last_def ebind_Inl_iff no_EM)
lemma select_no_EM [no_EM]: "select x s t \<noteq> Inl CannotUseEM"
  by (simp add: select_def split: list.splits)
lemma index_put_no_EM [no_EM]: "index_put x s t r \<noteq> Inl CannotUseEM"
  by (simp add: index_put_def ebind_Inl_iff no_EM split: list.splits)
lemma arange_no_EM [no_EM]: "arange a b \<noteq> Inl CannotUseEM"
  by (simp add: arange_def)


lemma run_targets_no_EM [no_EM]:
  "run_targets L sep audio nbs j names st \<noteq> Inl CannotUseEM"
proof (induction names arbitrary: j st)
  case Nil
  then show ?case by simp
next
  case (Cons name rest)
  obtain sp um h where st: "st = (sp, um, h)" by (cases st) auto
  show ?case
    unfolding st using Cons.IH
    by (auto simp: ebind_Inl_iff no_EM split: option.splits)
qed

lemma refine_windows_no_EM [no_EM]:
  "refine_windows L sep sp mx F bsize sample pos st \<noteq> Inl CannotUseEM"
proof (induction L sep sp mx F bsize sample pos st rule: refine_windows.induct)
  case (1 L sep sp mx F bsize sample pos ts cs)
  show ?case
  proof
    assume a: "refine_windows L sep sp mx F bsize sample pos (ts, cs) = Inl CannotUseEM"
    then have lt: "pos < F" by (auto split: if_splits)
    from a lt obtain t v x ts1 where
      ar: "arange pos (min (int F) (int pos + bsize)) = Inr t" and tne: "t \<noteq> []" and
      v: "select sp sample t = Inr v" and
      x: "select mx sample t = Inr x" and
      p: "index_put ts sample t (wiener L v x (niter sep) False (residual sep)) = Inr ts1" and
      rec: "refine_windows L sep sp mx F bsize sample (last t + 1)
              (ts1, cs @ [\<lparr>call_sample = sample, call_frames = t,
                 call_iterations = niter sep, call_use_softmask = False,
                 call_residual = residual sep\<rparr>]) = Inl CannotUseEM"
      by (auto simp: no_EM split: sum.splits if_splits simp del: refine_windows.simps
          simp add: refine_windows.simps [of L sep sp mx F bsize sample pos])
    from "1.IH" [OF lt ar tne v x p] rec show False by simp
  qed
qed

lemma refine_samples_no_EM [no_EM]:
  "refine_samples L sep sp mx F samples st \<noteq> Inl CannotUseEM"
proof (induction samples arbitrary: st)
  case Nil
  then show ?case by simp
next
  case (Cons sample rest)
  show ?case
    using Cons.IH
    by (simp add: refine_samples_Cons ebind_Inl_iff no_EM del: refine_samples.simps)
qed





section \<open>Constructed separators\<close>

lemma set_fold_update_subset:
  "set (fold (\<lambda>(k, v). AList.update k v) kvs acc) \<subseteq> set kvs \<union> set acc"
proof (induction kvs arbitrary: acc)
  case Nil
  then show ?case by simp
next
  case (Cons kv kvs)
  obtain k v where kv: "kv = (k, v)" by (cases kv) auto
  have "set (AList.update k v acc) \<subseteq> insert (k, v) (set acc)"
    by (induction acc) auto
  with Cons.IH [of "AList.update k v acc"] show ?case
    unfolding kv by auto
qed

lemma set_ModuleDict_subset: "set (ModuleDict kvs) \<subseteq> set kvs"
  using set_fold_update_subset [of kvs "[]"] by (simp add: ModuleDict_def)

lemma Separator_init_fits:
  assumes i: "Separator_init tgts n sm r b = Inr sep"
    and f: "list_all (\<lambda>kv. estimator_fits N H cen mo C (snd kv)) tgts"
    and hn: "H \<le> N" and bs: "case b of None \<Rightarrow> True | Some b \<Rightarrow> 0 \<le> b"
  shows "sep_fits N H cen mo C sep \<and> niter sep = n \<and> residual sep = r \<and> batch_size sep = b
         \<and> targets sep = ModuleDict tgts"
proof -
  from i have t: "targets sep = ModuleDict tgts" and ne: "ModuleDict tgts \<noteq> []"
    and rest: "niter sep = n" "residual sep = r" "batch_size sep = b"
      "nb_targets sep = length (ModuleDict tgts)"
    by (auto simp: Separator_init_def Let_def ebind_Inr_iff next_value_def split: list.splits)
  have "case map_of (ModuleDict tgts) name of None \<Rightarrow> False
        | Some u \<Rightarrow> estimator_fits N H cen mo C u"
    if "name \<in> fst ` set (ModuleDict tgts)" for name
  proof -
    from that obtain u where u: "map_of (ModuleDict tgts) name = Some u"
      by (metis domD dom_map_of_conv_image_fst)
    then have "(name, u) \<in> set tgts"
      using set_ModuleDict_subset map_of_SomeD by fastforce
    with f have "estimator_fits N H cen mo C u"
      by (auto simp: list_all_iff)
    with u show ?thesis by simp
  qed
  then show ?thesis
    using t ne rest hn bs by (simp add: sep_fits_def list_all_iff)
qed

lemma small_unmix_fits: "estimator_fits 4 1 True False 2 small_unmix"
  using OpenUnmix_init_fit [of 2 2 False zero_weights 4 1 False 44100 1 None None None 1]
  by (simp add: estimator_fits_def small_unmix_def OpenUnmix_init_fields)

lemma small_sep_init:
  "Separator_init [(''vocals'', small_unmix)] n False r b = Inr (small_sep n r b)"
  by (simp add: small_sep_def Separator_init_def Let_def ModuleDict_def next_value_def)


lemma small_sep_fits:
  "(case b of None \<Rightarrow> True | Some b \<Rightarrow> 0 \<le> b) \<Longrightarrow>
   sep_fits 4 1 True False 2 (small_sep n r b) \<and> niter (small_sep n r b) = n
   \<and> residual (small_sep n r b) = r \<and> batch_size (small_sep n r b) = b
   \<and> length (targets (small_sep n r b)) = 1"
  using Separator_init_fits [OF small_sep_init, of 4 1 True False 2 b n r] small_unmix_fits
  by (simp add: ModuleDict_def)


lemma zero_externals_contract: "wiener_shape_contract zero_externals"
  by (simp add: wiener_shape_contract_def zero_externals_def)

lemma audio_fits_example: "audio_fits 4 1 True 1 2 8"
  by (simp add: audio_fits_def)

section \<open>The single-target guard\<close>




section \<open>What forward returns, and what it passes to the refinement\<close>

lemma Separator_forward_never_Dict:
  "Separator_forward L sep audio h \<noteq> Inr (Dict d, h')"
proof
  assume "Separator_forward L sep audio h = Inr (Dict d, h')"
  then obtain calls where "Separator_forward_log L sep audio h = Inr (Dict d, h', calls)"
    by (auto simp: Separator_forward_def ebind_Inr_iff)
  from Separator_forward_log_D [OF this] show False by auto
qed

text \<open>
  C1. The claim (and the docstring of \<^verbatim>\<open>forward\<close>) promise a dictionary from target name
  to a waveform shaped like the input. The code assigns \<^verbatim>\<open>estimates = {}\<close>, overwrites it
  with the tensor \<^verbatim>\<open>istft\<close> returns and returns that: for one target and a waveform of
  shape \<open>(1, 2, 8)\<close> the result is a tensor of shape \<open>(1, 1, 2, 8)\<close>, with the sources
  on a second axis and no names. (\<open>Separator_forward_never_Dict\<close>: no call returns a
  dictionary.)
\<close>

theorem Separator_forward_returns_tensor:
  "\<exists>y h'. Separator_forward zero_externals (small_sep 0 None None)
             (arg_of (zeros [1, 2, 8])) (store_of (zeros [1, 2, 8])) = Inr (Tensor y, h')
          \<and> shape y = [1, 1, 2, 8]"
proof -
  have v: "vshape (arg_of (zeros [1, 2, 8])) = [1, 2, 8]" by (simp add: arg_of_def)
  note f = small_sep_fits [of None 0 None, simplified]
  from f have sf: "sep_fits 4 1 True False 2 (small_sep 0 None None)" by simp
  from Separator_forward_log_ok [OF sf audio_fits_example v zero_externals_contract,
      of "store_of (zeros [1, 2, 8])"] f
  obtain y h' calls where
    "Separator_forward_log zero_externals (small_sep 0 None None)
       (arg_of (zeros [1, 2, 8])) (store_of (zeros [1, 2, 8])) = Inr (Tensor y, h', calls)"
    "shape y = [1, 1, 2, 8]"
    by (auto simp: residual_count_def sep_fits_def)
  then show ?thesis by (auto simp: Separator_forward_def)
qed






section \<open>The windows of the refinement loop\<close>




section \<open>The values the refinement loop writes\<close>

lemma tensor_eqI:
  "shape a = shape b \<Longrightarrow> (\<And>i. elem a i = elem b i) \<Longrightarrow> a = (b :: tensor)"
  by (cases a; cases b) auto

lemma mk_cong: "(\<And>i. in_range s i \<Longrightarrow> f i = g i) \<Longrightarrow> mk s f = mk s g"
  by (rule tensor_eqI) (auto simp: elem_mk)

lemma in_range_Cons: "in_range (n # ns) i \<longleftrightarrow> i \<noteq> [] \<and> hd i < n \<and> in_range ns (tl i)"
  by (cases i) auto

lemma in_range_length: "in_range s i \<Longrightarrow> length i = length s"
  by (induction s i rule: in_range.induct) auto

lemma select_take_frames:
  assumes "shape a = n0 # n1 # rest" and "sample < n0" and "list_all (\<lambda>f. f < n1) t"
  shows "select a sample t = Inr (take_frames t (mk (n1 # rest)
           (\<lambda>i. elem a (sample # [0..<n1] ! hd i # tl i))))"
proof -
  have "mk (length t # rest) (\<lambda>i. elem a (sample # t ! hd i # tl i)) =
        take_frames t (mk (n1 # rest) (\<lambda>i. elem a (sample # [0..<n1] ! hd i # tl i)))"
    unfolding take_frames_def
    apply simp
    apply (rule mk_cong)
    using assms(3)
    apply (auto simp: elem_mk in_range_Cons list_all_length)
    done
  then show ?thesis using assms by (simp add: select_def)
qed

lemma select_full:
  assumes "shape a = n0 # n1 # rest" and "sample < n0"
  shows "select a sample [0..<n1] = Inr (mk (n1 # rest)
           (\<lambda>i. elem a (sample # [0..<n1] ! hd i # tl i)))"
  using assms by (simp add: select_def list_all_iff)

lemma wf_mk [simp]: "wf (mk s f)"
  by (simp add: wf_def elem_mk)

lemma wf_zeros [simp]: "wf (zeros s)"
  by (simp add: zeros_def)

lemma wf_eqI:
  "wf a \<Longrightarrow> wf b \<Longrightarrow> shape a = shape b \<Longrightarrow>
   (\<And>i. in_range (shape a) i \<Longrightarrow> elem a i = elem b i) \<Longrightarrow> a = b"
  by (rule tensor_eqI) (auto simp: wf_def, metis)

lemma bidx_in_range: "in_range s j \<Longrightarrow> bidx s j = j"
proof -
  assume a: "in_range s j"
  then have "map2 (\<lambda>n k. if n = 1 then 0 else k) s j = j"
    by (induction s j rule: in_range.induct) auto
  with in_range_length [OF a] show ?thesis by (simp add: bidx_def)
qed

lemma index_of_less: "f \<in> set t \<Longrightarrow> index_of t f < length t"
  unfolding index_of_def by (induction t) auto

lemma nth_index_of: "f \<in> set t \<Longrightarrow> t ! index_of t f = f"
  unfolding index_of_def by (induction t) auto

lemma index_put_elem:
  assumes sx: "shape x = n0 # n1 # rest" and s: "sample < n0"
    and t: "list_all (\<lambda>f. f < n1) t" and sr: "shape r = length t # rest"
    and p: "index_put x sample t r = Inr y"
    and i: "in_range (shape x) i"
  shows "elem y i = (if hd i = sample \<and> i ! 1 \<in> set t
                     then elem r (index_of t (i ! 1) # drop 2 i) else elem x i)"
proof -
  from p sx s t sr have y: "y = mk (shape x)
      (\<lambda>i. if hd i = sample \<and> i ! 1 \<in> set t
           then elem (mk (length t # rest) (\<lambda>j. elem r (bidx (length t # rest) j)))
                  (index_of t (i ! 1) # drop 2 i)
           else elem x i)"
    by (auto simp: index_put_def expand_def)
  from i sx obtain a b c where ii: "i = a # b # c" "a < n0" "b < n1" "in_range rest c"
    by (cases i; cases "tl i") auto
  from ii have d: "i ! 1 = b" "drop 2 i = c" "hd i = a" by simp_all
  show ?thesis
  proof (cases "a = sample \<and> b \<in> set t")
    case False
    then show ?thesis unfolding y using i d by (auto simp: elem_mk)
  next
    case True
    with ii have r: "in_range (length t # rest) (index_of t b # c)"
      by (simp add: index_of_less)
    have "elem y i = elem (mk (length t # rest) (\<lambda>j. elem r (bidx (length t # rest) j)))
                  (index_of t b # c)"
      unfolding y using i d True by (simp add: elem_mk)
    also have "\<dots> = elem r (index_of t b # c)"
      using r by (simp only: elem_mk bidx_in_range if_True)
    finally show ?thesis using d True by simp
  qed
qed

lemma index_put_wf: "index_put x sample t r = Inr y \<Longrightarrow> wf y"
  by (auto simp: index_put_def ebind_Inr_iff split: list.splits if_splits)

lemma elem_take_frames:
  "f \<in> set t \<Longrightarrow> in_range (tl (shape v)) c \<Longrightarrow>
   elem (take_frames t v) (index_of t f # c) = elem v (f # c)"
  by (simp add: take_frames_def elem_mk index_of_less nth_index_of)

lemma window_result:
  assumes w: "wiener_shape_contract L" and fw: "framewise L (niter sep) (residual sep)"
    and ssp: "shape sp = [B, F, K, C', S]" and smx: "shape mx = [B, F, K, C, 2]"
    and s: "sample < B" and t: "list_all (\<lambda>f. f < F) t"
  shows "\<exists>v x. select sp sample t = Inr v \<and> select mx sample t = Inr x
           \<and> wiener L v x (niter sep) False (residual sep)
               = take_frames t (full_refined L sep sp mx sample)
           \<and> shape (full_refined L sep sp mx sample)
               = [F, K, C, 2, S + (if residual sep = None then 0 else 1)]"
proof -
  let ?vf = "mk (F # [K, C', S]) (\<lambda>i. elem sp (sample # [0..<F] ! hd i # tl i))"
  let ?xf = "mk (F # [K, C, 2]) (\<lambda>i. elem mx (sample # [0..<F] ! hd i # tl i))"
  have fr: "full_refined L sep sp mx sample = wiener L ?vf ?xf (niter sep) False (residual sep)"
    using select_full [OF ssp s] select_full [OF smx s] ssp
    by (simp add: full_refined_def)
  have v: "select sp sample t = Inr (take_frames t ?vf)"
    using select_take_frames [OF ssp s t] .
  have x: "select mx sample t = Inr (take_frames t ?xf)"
    using select_take_frames [OF smx s t] .
  have "wiener L (take_frames t ?vf) (take_frames t ?xf) (niter sep) False (residual sep)
        = take_frames t (wiener L ?vf ?xf (niter sep) False (residual sep))"
    using fw t unfolding framewise_def
    by (auto simp: list_all_iff)
  moreover have "shape (wiener L ?vf ?xf (niter sep) False (residual sep))
                 = [F, K, C, 2, S + (if residual sep = None then 0 else 1)]"
    using w by (simp add: wiener_shape_contract_def)
  ultimately show ?thesis using v x fr by simp
qed

lemma refine_windows_value:
  assumes w: "wiener_shape_contract L" and fw: "framewise L (niter sep) (residual sep)"
    and ssp: "shape sp = [B, F, K, C', S]" and smx: "shape mx = [B, F, K, C, 2]"
    and sts: "shape ts = [B, F, K, C, 2, S + (if residual sep = None then 0 else 1)]"
    and s: "sample < B" and b: "0 < bsize"
    and r: "refine_windows L sep sp mx F bsize sample pos (ts, cs) = Inr (ts', cs')"
    and i: "in_range (shape ts) i"
  shows "elem ts' i = (if hd i = sample \<and> pos \<le> i ! 1
                       then elem (full_refined L sep sp mx sample) (i ! 1 # drop 2 i)
                       else elem ts i)"
  using w fw ssp smx s b sts r i
proof (induction L sep sp mx F bsize sample pos "(ts, cs)" arbitrary: ts cs
       rule: refine_windows.induct)
  case (1 L sep sp mx F bsize sample pos ts cs)
  note w = "1.prems"(1) and fw = "1.prems"(2) and ssp = "1.prems"(3) and smx = "1.prems"(4)
    and s = "1.prems"(5) and b = "1.prems"(6) and sts = "1.prems"(7) and r = "1.prems"(8)
    and i = "1.prems"(9)
  from i sts obtain a f c where ii: "i = a # f # c" "a < B" "f < F"
    "in_range [K, C, 2, S + (if residual sep = None then 0 else 1)] c"
    by (cases i; cases "tl i") auto
  then have d: "hd i = a" "i ! 1 = f" "drop 2 i = c" by simp_all
  show ?case
  proof (cases "pos < F")
    case False
    with r have "ts' = ts" by auto
    with False ii d show ?thesis by simp
  next
    case True
    let ?e = "nat (min (int F) (int pos + bsize))"
    let ?t = "[pos..<?e]"
    let ?c = "\<lparr>call_sample = sample, call_frames = ?t, call_iterations = niter sep,
               call_use_softmask = False, call_residual = residual sep\<rparr>"
    let ?R = "full_refined L sep sp mx sample"
    have e: "pos < ?e" "?e \<le> F" using True b by auto
    have ar: "arange pos (min (int F) (int pos + bsize)) = Inr ?t"
      using True b by (auto simp: arange_def)
    have tne: "?t \<noteq> []" using e by simp
    have lt: "last ?t + 1 = ?e" using e by simp
    have la: "list_all (\<lambda>f. f < F) ?t" using e by (simp add: list_all_iff)
    from window_result [OF w fw ssp smx s la] obtain v x where
      v: "select sp sample ?t = Inr v" and x: "select mx sample ?t = Inr x" and
      wr: "wiener L v x (niter sep) False (residual sep) = take_frames ?t ?R" and
      sR: "shape ?R = [F, K, C, 2, S + (if residual sep = None then 0 else 1)]"
      by blast
    from r True ar tne v x obtain ts1 where
      p: "index_put ts sample ?t (wiener L v x (niter sep) False (residual sep)) = Inr ts1" and
      rec: "refine_windows L sep sp mx F bsize sample ?e (ts1, cs @ [?c]) = Inr (ts', cs')"
      by (auto simp: lt split: sum.splits simp del: refine_windows.simps
          simp add: refine_windows.simps [of L sep sp mx F bsize sample pos])
    have str: "shape (take_frames ?t ?R)
               = length ?t # [K, C, 2, S + (if residual sep = None then 0 else 1)]"
      using sR by (simp add: take_frames_def)
    have e1: "elem ts1 i = (if a = sample \<and> f \<in> set ?t
                            then elem (take_frames ?t ?R) (index_of ?t f # c) else elem ts i)"
      using index_put_elem [OF sts s la str p [unfolded wr] i] d by simp
    have s1: "shape ts1 = shape ts" using index_put_shape [OF p] .
    have sts1: "shape ts1 = [B, F, K, C, 2, S + (if residual sep = None then 0 else 1)]"
      using s1 sts by simp
    have rec': "refine_windows L sep sp mx F bsize sample (last ?t + 1) (ts1, cs @ [?c])
                = Inr (ts', cs')"
      using rec by (simp only: lt)
    have i1: "in_range (shape ts1) i" using i s1 by simp
    note IH0 = "1.hyps" [OF True ar tne v x p w fw ssp smx s b sts1 rec' i1]
    have IH: "elem ts' i = (if a = sample \<and> ?e \<le> f then elem ?R (f # c) else elem ts1 i)"
      using IH0 unfolding lt d .
    have tf: "elem (take_frames ?t ?R) (index_of ?t f # c) = elem ?R (f # c)" if "f \<in> set ?t"
      using elem_take_frames [OF that, of ?R c] sR ii(4) by simp
    show ?thesis
      unfolding d IH e1 using tf e by auto
  qed
qed

lemma refine_windows_wf:
  assumes "refine_windows L sep sp mx F bsize sample pos (ts, cs) = Inr (ts', cs')" and "wf ts"
  shows "wf ts'"
  using assms
proof (induction L sep sp mx F bsize sample pos "(ts, cs)" arbitrary: ts cs
       rule: refine_windows.induct)
  case (1 L sep sp mx F bsize sample pos ts cs)
  show ?case
  proof (cases "pos < F")
    case False
    with "1.prems" show ?thesis by auto
  next
    case True
    from "1.prems"(1) True obtain t v x ts1 where
      ar: "arange pos (min (int F) (int pos + bsize)) = Inr t" and tne: "t \<noteq> []" and
      v: "select sp sample t = Inr v" and
      x: "select mx sample t = Inr x" and
      p: "index_put ts sample t (wiener L v x (niter sep) False (residual sep)) = Inr ts1" and
      rec: "refine_windows L sep sp mx F bsize sample (last t + 1)
              (ts1, cs @ [\<lparr>call_sample = sample, call_frames = t,
                 call_iterations = niter sep, call_use_softmask = False,
                 call_residual = residual sep\<rparr>]) = Inr (ts', cs')"
      by (auto split: sum.splits if_splits simp del: refine_windows.simps
          simp add: refine_windows.simps [of L sep sp mx F bsize sample pos])
    from "1.hyps" [OF True ar tne v x p rec index_put_wf [OF p]] show ?thesis .
  qed
qed

lemma refine_samples_wf:
  assumes "refine_samples L sep sp mx F samples (ts, cs) = Inr (ts', cs')" and "wf ts"
  shows "wf ts'"
  using assms
proof (induction samples arbitrary: ts cs)
  case Nil
  then show ?case by simp
next
  case (Cons sample rest)
  from Cons.prems(1) obtain ts1 cs1 where
    w: "refine_windows L sep sp mx F (window_size sep F) sample 0 (ts, cs) = Inr (ts1, cs1)"
    and r: "refine_samples L sep sp mx F rest (ts1, cs1) = Inr (ts', cs')"
    by (auto simp: refine_samples_Cons ebind_Inr_iff simp del: refine_samples.simps)
  from Cons.IH [OF r refine_windows_wf [OF w Cons.prems(2)]] show ?case .
qed

lemma refine_windows_shape:
  assumes "refine_windows L sep sp mx F bsize sample pos (ts, cs) = Inr (ts', cs')"
  shows "shape ts' = shape ts"
  using assms
proof (induction L sep sp mx F bsize sample pos "(ts, cs)" arbitrary: ts cs
       rule: refine_windows.induct)
  case (1 L sep sp mx F bsize sample pos ts cs)
  show ?case
  proof (cases "pos < F")
    case False
    with "1.prems" show ?thesis by auto
  next
    case True
    from "1.prems"(1) True obtain t v x ts1 where
      ar: "arange pos (min (int F) (int pos + bsize)) = Inr t" and tne: "t \<noteq> []" and
      v: "select sp sample t = Inr v" and
      x: "select mx sample t = Inr x" and
      p: "index_put ts sample t (wiener L v x (niter sep) False (residual sep)) = Inr ts1" and
      rec: "refine_windows L sep sp mx F bsize sample (last t + 1)
              (ts1, cs @ [\<lparr>call_sample = sample, call_frames = t,
                 call_iterations = niter sep, call_use_softmask = False,
                 call_residual = residual sep\<rparr>]) = Inr (ts', cs')"
      by (auto split: sum.splits if_splits simp del: refine_windows.simps
          simp add: refine_windows.simps [of L sep sp mx F bsize sample pos])
    from "1.hyps" [OF True ar tne v x p rec] index_put_shape [OF p] show ?thesis by simp
  qed
qed

lemma refine_samples_value:
  assumes w: "wiener_shape_contract L" and fw: "framewise L (niter sep) (residual sep)"
    and ssp: "shape sp = [B, F, K, C', S]" and smx: "shape mx = [B, F, K, C, 2]"
    and b: "0 < window_size sep F"
    and sts: "shape ts = [B, F, K, C, 2, S + (if residual sep = None then 0 else 1)]"
    and ss: "list_all (\<lambda>s. s < B) samples"
    and r: "refine_samples L sep sp mx F samples (ts, cs) = Inr (ts', cs')"
    and i: "in_range (shape ts) i"
  shows "elem ts' i = (if hd i \<in> set samples
                       then elem (full_refined L sep sp mx (hd i)) (i ! 1 # drop 2 i)
                       else elem ts i)"
  using sts ss r i
proof (induction samples arbitrary: ts cs)
  case Nil
  then show ?case by simp
next
  case (Cons sample rest)
  from Cons.prems(3) obtain ts1 cs1 where
    w1: "refine_windows L sep sp mx F (window_size sep F) sample 0 (ts, cs) = Inr (ts1, cs1)"
    and r1: "refine_samples L sep sp mx F rest (ts1, cs1) = Inr (ts', cs')"
    by (auto simp: refine_samples_Cons ebind_Inr_iff simp del: refine_samples.simps)
  from Cons.prems(2) have sb: "sample < B" and rb: "list_all (\<lambda>s. s < B) rest" by simp_all
  have s1: "shape ts1 = shape ts" using refine_windows_shape [OF w1] .
  have e1: "elem ts1 i = (if hd i = sample
                          then elem (full_refined L sep sp mx sample) (i ! 1 # drop 2 i)
                          else elem ts i)"
    using refine_windows_value [OF w fw ssp smx Cons.prems(1) sb b w1 Cons.prems(4)] by simp
  have "elem ts' i = (if hd i \<in> set rest
                       then elem (full_refined L sep sp mx (hd i)) (i ! 1 # drop 2 i)
                       else elem ts1 i)"
    using Cons.IH [OF _ rb r1] s1 Cons.prems(1,4) by simp
  with e1 show ?case by auto
qed

section \<open>Construction of a Separator\<close>





end
